theory Spec2Isabelle
  imports Complex_Main "HOL-Library.AList" "HOL-Library.Product_Lexorder"
    "HOL-Library.List_Lexorder" "HOL-Library.Multiset"
begin

section \<open>Numbers\<close>

text \<open>
  The numeric columns of the table are pandas float64 (or int64) columns. A value of such
  a column is either NaN, which pandas treats as the missing marker, or a number. The
  numbers are modelled by \<open>fl\<close>: a finite value, given exactly as a rational, or one of
  the two infinities. NaN is not a number of this type: it is the cell \<open>CNull\<close> below.
  Negative zero is identified with zero (they compare equal in the source as well).
\<close>

datatype fl = NInf | Fin rat | PInf

instantiation fl :: linorder
begin

fun less_eq_fl :: "fl \<Rightarrow> fl \<Rightarrow> bool" where
  "less_eq_fl NInf _ = True"
| "less_eq_fl (Fin a) NInf = False"
| "less_eq_fl (Fin a) (Fin b) = (a \<le> b)"
| "less_eq_fl (Fin a) PInf = True"
| "less_eq_fl PInf PInf = True"
| "less_eq_fl PInf _ = False"

definition less_fl :: "fl \<Rightarrow> fl \<Rightarrow> bool" where
  "less_fl a b = (a \<le> b \<and> \<not> b \<le> a)"

instance
proof
  fix x y z :: fl
  show "(x < y) = (x \<le> y \<and> \<not> y \<le> x)" by (simp add: less_fl_def)
  show "x \<le> x" by (cases x) simp_all
  show "x \<le> y \<Longrightarrow> y \<le> z \<Longrightarrow> x \<le> z" by (cases x; cases y; cases z) simp_all
  show "x \<le> y \<Longrightarrow> y \<le> x \<Longrightarrow> x = y" by (cases x; cases y) simp_all
  show "x \<le> y \<or> y \<le> x" by (cases x; cases y) auto
qed

end

text \<open>
  Rounding of an exact value to the nearest binary64 number, ties to even: the result of
  a float64 operation is the rounding of its exact result. \<open>ilog2 q\<close> is the exponent
  \<open>e\<close> with \<open>2^e \<le> q < 2^(e+1)\<close>; the significand has 53 bits, the least exponent of
  a unit in the last place is \<open>-1074\<close> (subnormal numbers), and a rounded value of
  \<open>2^1024\<close> or more is an infinity.
\<close>

function floor_log2 :: "int \<Rightarrow> int" where
  "floor_log2 n = (if n < 2 then 0 else 1 + floor_log2 (n div 2))"
  by pat_completeness auto
termination
  by (relation "measure nat") auto

declare floor_log2.simps [simp del]

definition pow2 :: "int \<Rightarrow> rat" where
  "pow2 k = (if 0 \<le> k then 2 ^ nat k else 1 / 2 ^ nat (- k))"

definition round_half_even :: "rat \<Rightarrow> int" where
  "round_half_even q =
     (let f = \<lfloor>q\<rfloor>; d = q - of_int f
      in if d < 1 / 2 then f else if 1 / 2 < d then f + 1
         else if even f then f else f + 1)"

definition ilog2 :: "rat \<Rightarrow> int" where
  "ilog2 q =
     (let (n, d) = quotient_of q;
          e = floor_log2 n - floor_log2 d
      in if pow2 e \<le> q then e else e - 1)"

definition round64 :: "rat \<Rightarrow> fl" where
  "round64 q =
     (if q = 0 then Fin 0
      else let a = \<bar>q\<bar>;
               k = max (ilog2 a - 52) (- 1074);
               m = round_half_even (a / pow2 k)
           in if 971 < k \<or> (k = 971 \<and> m = 2 ^ 53)
              then (if q < 0 then NInf else PInf)
              else Fin ((if q < 0 then - 1 else 1) * of_int m * pow2 k))"

text \<open>The conversion of a number to a Python float, and \<open>int\<close> of a float.\<close>

datatype pyfloat = FNaN | FVal fl

definition to_float :: "fl \<Rightarrow> fl" where
  "to_float v = (case v of Fin r \<Rightarrow> round64 r | _ \<Rightarrow> v)"

definition truncate_rat :: "rat \<Rightarrow> int" where
  "truncate_rat r = (if 0 \<le> r then \<lfloor>r\<rfloor> else \<lceil>r\<rceil>)"

text \<open>
  \<open>int(f)\<close> for a float \<open>f\<close> truncates towards zero; it raises ValueError on NaN and
  OverflowError on an infinity (the result \<open>None\<close>).
\<close>

definition int_of_float :: "pyfloat \<Rightarrow> int option" where
  "int_of_float f = (case f of FVal (Fin r) \<Rightarrow> Some (truncate_rat r) | _ \<Rightarrow> None)"

section \<open>Python's \<open>int\<close> and \<open>float\<close> on strings\<close>

text \<open>
  A Python string is modelled by its UTF-8 bytes. \<open>int\<close> and \<open>float\<close> first turn a text
  that is not pure ASCII into ASCII: a white-space character of Unicode becomes a space
  and a decimal digit of any script becomes the ASCII digit of its value; at the first
  other character beyond ASCII the text is cut with a question mark, which no literal
  contains. Then surrounding white space (tab, line feed, vertical tab, form feed,
  carriage return, space) is dropped, and what is left must be an optional sign and a
  decimal literal whose digits may be separated by single underscores. The tables are
  those of Unicode 14 (Python 3.11); \<open>int\<close> refuses more than 4300 digits, the default
  limit of Python 3.11 and of the security releases of the versions before it.
\<close>

definition is_space :: "char \<Rightarrow> bool" where
  "is_space c = ((of_char c :: nat) \<in> {9, 10, 11, 12, 13, 32})"

text \<open>The white space of Unicode beyond ASCII, by code point.\<close>

definition unicode_space :: "nat \<Rightarrow> bool" where
  "unicode_space cp =
     (cp \<in> {0x85, 0xA0, 0x1680, 0x2028, 0x2029, 0x202F, 0x205F, 0x3000}
      \<or> (0x2000 \<le> cp \<and> cp \<le> 0x200A))"

text \<open>
  The decimal digits of Unicode come in runs of ten, zero first: the code points of the
  zeros.
\<close>

definition decimal_zeros :: "nat list" where
  "decimal_zeros =
     [48, 1632, 1776, 1984, 2406, 2534, 2662, 2790, 2918, 3046, 3174, 3302, 3430, 3558,
      3664, 3792, 3872, 4160, 4240, 6112, 6160, 6470, 6608, 6784, 6800, 6992, 7088, 7232,
      7248, 42528, 43216, 43264, 43472, 43504, 43600, 44016, 65296, 66720, 68912, 69734,
      69872, 69942, 70096, 70384, 70736, 70864, 71248, 71360, 71472, 71904, 72016, 72784,
      73040, 73120, 92768, 92864, 93008, 120782, 120792, 120802, 120812, 120822, 123200,
      123632, 125264, 130032]"

definition unicode_decimal :: "nat \<Rightarrow> nat option" where
  "unicode_decimal cp =
     (case find (\<lambda>z. z \<le> cp \<and> cp < z + 10) decimal_zeros of
        None \<Rightarrow> None
      | Some z \<Rightarrow> Some (cp - z))"

text \<open>
  The code points of a UTF-8 text. A byte sequence that is no UTF-8 stands for no
  Python string; it is read as the code point \<open>0x110000\<close>, which is no character.
\<close>

definition payload :: "string \<Rightarrow> nat \<Rightarrow> nat" where
  "payload bs k = (if k < length bs then (of_char (bs ! k) :: nat) mod 64 else 0)"

definition continued :: "string \<Rightarrow> nat \<Rightarrow> bool" where
  "continued bs k =
     (k \<le> length bs
      \<and> list_all (\<lambda>b. 128 \<le> (of_char b :: nat) \<and> (of_char b :: nat) < 192) (take k bs))"

fun utf8_decode :: "string \<Rightarrow> nat list" where
  "utf8_decode [] = []"
| "utf8_decode (b # bs) =
     (let n = (of_char b :: nat)
      in if n < 128 then n # utf8_decode bs
         else if 192 \<le> n \<and> n < 224 \<and> continued bs 1
         then ((n - 192) * 64 + payload bs 0) # utf8_decode (drop 1 bs)
         else if 224 \<le> n \<and> n < 240 \<and> continued bs 2
         then ((n - 224) * 4096 + payload bs 0 * 64 + payload bs 1) # utf8_decode (drop 2 bs)
         else if 240 \<le> n \<and> n < 248 \<and> continued bs 3
         then ((n - 240) * 262144 + payload bs 0 * 4096 + payload bs 1 * 64 + payload bs 2)
              # utf8_decode (drop 3 bs)
         else 1114112 # utf8_decode bs)"

fun transform :: "nat list \<Rightarrow> string" where
  "transform [] = []"
| "transform (cp # cps) =
     (if cp < 127 then char_of cp # transform cps
      else if unicode_space cp then CHR '' '' # transform cps
      else (case unicode_decimal cp of
              Some d \<Rightarrow> char_of (48 + d) # transform cps
            | None \<Rightarrow> ''?''))"

definition to_ascii :: "string \<Rightarrow> string" where
  "to_ascii s =
     (if list_all (\<lambda>b. (of_char b :: nat) < 128) s then s
      else transform (utf8_decode s))"

definition is_digit :: "char \<Rightarrow> bool" where
  "is_digit c = (48 \<le> (of_char c :: nat) \<and> (of_char c :: nat) \<le> 57)"

definition digit_val :: "char \<Rightarrow> int" where
  "digit_val c = int (of_char c) - 48"

definition lower_ascii :: "char \<Rightarrow> char" where
  "lower_ascii c =
     (if 65 \<le> (of_char c :: nat) \<and> (of_char c :: nat) \<le> 90
      then char_of (of_char c + (32 :: nat)) else c)"

definition strip :: "string \<Rightarrow> string" where
  "strip s = rev (dropWhile is_space (rev (dropWhile is_space s)))"

text \<open>\<open>s.split(sep)\<close> with an explicit separator: never an empty list.\<close>

fun split_on :: "char \<Rightarrow> string \<Rightarrow> string list" where
  "split_on sep [] = [[]]"
| "split_on sep (c # cs) =
     (if c = sep then [] # split_on sep cs
      else (case split_on sep cs of [] \<Rightarrow> [[c]] | p # ps \<Rightarrow> (c # p) # ps))"

text \<open>
  \<open>digits_acc v n s\<close> reads the rest of a digit part (\<open>digit (["_"] digit)*\<close>) after its
  first digit: \<open>v\<close> is the value so far and \<open>n\<close> the number of digits. It returns the
  value, the number of digits and the text left over.
\<close>

fun digits_acc :: "int \<Rightarrow> nat \<Rightarrow> string \<Rightarrow> int \<times> nat \<times> string" where
  "digits_acc v n [] = (v, n, [])"
| "digits_acc v n [c] =
     (if is_digit c then (10 * v + digit_val c, Suc n, []) else (v, n, [c]))"
| "digits_acc v n (c # d # ds) =
     (if is_digit c then digits_acc (10 * v + digit_val c) (Suc n) (d # ds)
      else if c = CHR ''_'' \<and> is_digit d then digits_acc (10 * v + digit_val d) (Suc n) ds
      else (v, n, c # d # ds))"

definition digitpart :: "string \<Rightarrow> (int \<times> nat \<times> string) option" where
  "digitpart s =
     (case s of [] \<Rightarrow> None
      | c # cs \<Rightarrow> if is_digit c then Some (digits_acc (digit_val c) 1 cs) else None)"

definition read_sign :: "string \<Rightarrow> bool \<times> string" where
  "read_sign s =
     (case s of [] \<Rightarrow> (False, [])
      | c # cs \<Rightarrow> if c = CHR ''-'' then (True, cs)
                 else if c = CHR ''+'' then (False, cs) else (False, c # cs))"

text \<open>
  \<open>int(s)\<close> for a string, base ten; \<open>None\<close> is the ValueError, also raised for a
  literal of more than 4300 digits.
\<close>

definition int_of_str :: "string \<Rightarrow> int option" where
  "int_of_str s =
     (let (neg, u) = read_sign (strip (to_ascii s))
      in case digitpart u of
           Some (v, n, []) \<Rightarrow> if 4300 < n then None else Some (if neg then - v else v)
         | _ \<Rightarrow> None)"

text \<open>
  The number part of a float literal: \<open>[digitpart] "." digitpart | digitpart ["."]\<close>.
  The result is the significand as an integer, the decimal exponent it carries and the
  text left over.
\<close>

definition read_number :: "string \<Rightarrow> (int \<times> int \<times> string) option" where
  "read_number u =
     (case digitpart u of
        Some (ip, n, r1) \<Rightarrow>
          (case r1 of
             [] \<Rightarrow> Some (ip, 0, [])
           | c # r2 \<Rightarrow>
               if c = CHR ''.''
               then (case digitpart r2 of
                       Some (fp, nf, r3) \<Rightarrow> Some (ip * 10 ^ nf + fp, - int nf, r3)
                     | None \<Rightarrow> Some (ip, 0, r2))
               else Some (ip, 0, c # r2))
      | None \<Rightarrow>
          (case u of
             [] \<Rightarrow> None
           | c # r2 \<Rightarrow>
               if c = CHR ''.''
               then (case digitpart r2 of
                       Some (fp, nf, r3) \<Rightarrow> Some (fp, - int nf, r3)
                     | None \<Rightarrow> None)
               else None))"

text \<open>The exponent part \<open>("e" | "E") [sign] digitpart\<close>, which must reach the end.\<close>

definition read_exponent :: "string \<Rightarrow> int option" where
  "read_exponent r =
     (case r of
        [] \<Rightarrow> Some 0
      | c # cs \<Rightarrow>
          if c = CHR ''e'' \<or> c = CHR ''E''
          then (let (neg, u) = read_sign cs
                in case digitpart u of
                     Some (v, n, []) \<Rightarrow> Some (if neg then - v else v)
                   | _ \<Rightarrow> None)
          else None)"

definition pow10 :: "int \<Rightarrow> rat" where
  "pow10 k = (if 0 \<le> k then 10 ^ nat k else 1 / 10 ^ nat (- k))"

text \<open>\<open>float(s)\<close> for a string; \<open>None\<close> is the ValueError.\<close>

definition float_of_str :: "string \<Rightarrow> pyfloat option" where
  "float_of_str s =
     (let (neg, u) = read_sign (strip (to_ascii s));
          w = map lower_ascii u
      in if w = ''inf'' \<or> w = ''infinity'' then Some (FVal (if neg then NInf else PInf))
         else if w = ''nan'' then Some FNaN
         else (case read_number u of
                 None \<Rightarrow> None
               | Some (m, sc, r) \<Rightarrow>
                   (case read_exponent r of
                      None \<Rightarrow> None
                    | Some ex \<Rightarrow>
                        Some (FVal (round64 ((if neg then - 1 else 1)
                                             * of_int m * pow10 (sc + ex)))))))"

section \<open>Cells and the composite-count parser\<close>

text \<open>
  A cell of the table: the missing marker (\<open>None\<close> or NaN, which \<open>pd.isna\<close> does not
  tell apart), a string, or a number.
\<close>

datatype cell = CNull | CStr string | CNum fl

definition isna :: "cell \<Rightarrow> bool" where
  "isna x = (x = CNull)"

text \<open>\<open>float(x)\<close> for a cell; \<open>None\<close> is the exception it raises.\<close>

definition float_of_cell :: "cell \<Rightarrow> pyfloat option" where
  "float_of_cell x =
     (case x of
        CNull \<Rightarrow> Some FNaN
      | CStr s \<Rightarrow> float_of_str s
      | CNum v \<Rightarrow> Some (FVal (to_float v)))"

text \<open>
  The body of the \<open>try\<close> block of \<open>extract_half_year_times\<close>: \<open>None\<close> when it raises.
\<close>

definition try_extract :: "cell \<Rightarrow> int option" where
  "try_extract x =
     (let int_float = (case float_of_cell x of None \<Rightarrow> None | Some f \<Rightarrow> int_of_float f)
      in case x of
           CStr s \<Rightarrow>
             if CHR ''/'' \<in> set s
             then (let parts = split_on (CHR ''/'') s
                   in if 2 \<le> length parts then int_of_str (parts ! 1) else int_float)
             else int_float
         | _ \<Rightarrow> int_float)"

definition extract_half_year_times :: "cell \<Rightarrow> int" where
  "extract_half_year_times x =
     (if isna x then 0
      else (case try_extract x of Some n \<Rightarrow> n | None \<Rightarrow> 0))"

text \<open>
  The function on any value that a cell of an object column may hold: a scalar (a cell
  as above) or a list. The first statement of the function, \<open>if pd.isna(x)\<close>, stands
  before the \<open>try\<close>. For a list \<open>pd.isna\<close> gives an array of booleans, and the truth
  value of an array of two or more elements raises ValueError. A list of one element
  is missing or not according to that element; when it is not, \<open>float\<close> of the list
  raises inside the \<open>try\<close>: the result is 0 either way. The empty list is left out (what
  the truth value of an empty array does depends on the version of numpy).
\<close>

datatype pyvalue = Scalar cell | PyList cell "cell list"

datatype error = KeyError | ValueError

definition extract_value :: "pyvalue \<Rightarrow> error + int" where
  "extract_value x =
     (case x of
        Scalar c \<Rightarrow> Inr (extract_half_year_times c)
      | PyList c cs \<Rightarrow> if cs = [] then Inr 0 else Inl ValueError)"

text \<open>
  The parser as the specification words it: a missing value gives 0; a string with a
  slash gives the integer value of its second slash-separated part, the text between
  the first slash and the next one; any other value gives the integer reading of its
  numeric value, the integer part of the number; whatever does not parse gives 0.
\<close>

definition second_part :: "string \<Rightarrow> string option" where
  "second_part s =
     (if CHR ''/'' \<in> set s
      then Some (takeWhile (\<lambda>c. c \<noteq> CHR ''/'') (tl (dropWhile (\<lambda>c. c \<noteq> CHR ''/'') s)))
      else None)"

definition integer_part :: "rat \<Rightarrow> int" where
  "integer_part r = (if r < 0 then - \<lfloor>\<bar>r\<bar>\<rfloor> else \<lfloor>\<bar>r\<bar>\<rfloor>)"

definition integer_reading :: "cell \<Rightarrow> int option" where
  "integer_reading x =
     (case x of
        CNull \<Rightarrow> None
      | CStr s \<Rightarrow>
          (case float_of_str s of
             Some (FVal (Fin r)) \<Rightarrow> Some (integer_part r)
           | _ \<Rightarrow> None)
      | CNum v \<Rightarrow>
          (case to_float v of Fin r \<Rightarrow> Some (integer_part r) | _ \<Rightarrow> None))"

definition composite_count :: "cell \<Rightarrow> int" where
  "composite_count x =
     (case x of
        CNull \<Rightarrow> 0
      | CStr s \<Rightarrow>
          (case second_part s of
             Some p \<Rightarrow> (case int_of_str p of Some n \<Rightarrow> n | None \<Rightarrow> 0)
           | None \<Rightarrow> (case integer_reading x of Some n \<Rightarrow> n | None \<Rightarrow> 0))
      | CNum v \<Rightarrow> (case integer_reading x of Some n \<Rightarrow> n | None \<Rightarrow> 0))"

text \<open>The decimal numeral of a natural number, and the characters of the literals.\<close>

fun decimal :: "nat \<Rightarrow> string" where
  "decimal n =
     (if n < 10 then [char_of (48 + n)]
      else decimal (n div 10) @ [char_of (48 + n mod 10)])"

declare decimal.simps [simp del]

definition int_char :: "char \<Rightarrow> bool" where
  "int_char c = (is_digit c \<or> is_space c \<or> c \<in> set ''+-_'')"

definition float_char :: "char \<Rightarrow> bool" where
  "float_char c =
     (is_digit c \<or> is_space c \<or> c \<in> set ''+-_.eE'' \<or> lower_ascii c \<in> set ''infatyn'')"

text \<open>
  The value of a digit string, and the sign and the digits of an integer literal
  (white space, the sign and the underscores set aside).
\<close>

abbreviation digit_step :: "int \<Rightarrow> char \<Rightarrow> int" where
  "digit_step a c \<equiv> 10 * a + digit_val c"

definition digits_value :: "string \<Rightarrow> int" where
  "digits_value s = foldl digit_step 0 s"

definition literal_negative :: "string \<Rightarrow> bool" where
  "literal_negative p = fst (read_sign (strip (to_ascii p)))"

definition literal_digits :: "string \<Rightarrow> string" where
  "literal_digits p = filter (\<lambda>c. c \<noteq> CHR ''_'') (snd (read_sign (strip (to_ascii p))))"

section \<open>Column labels\<close>

text \<open>
  The labels of the source are Chinese text; each is given here by the UTF-8 bytes of the
  string literal in the source.
\<close>

text \<open>\<open>col_code\<close>: the label with the code points U+4EE3 U+7801.\<close>

definition col_code :: string where
  "col_code =
     [CHR 0xE4, CHR 0xBB, CHR 0xA3, CHR 0xE7, CHR 0xA0, CHR 0x81]"

text \<open>\<open>col_name\<close>: the label with the code points U+540D U+79F0.\<close>

definition col_name :: string where
  "col_name =
     [CHR 0xE5, CHR 0x90, CHR 0x8D, CHR 0xE7, CHR 0xA7, CHR 0xB0]"

text \<open>\<open>price_latest\<close>: the label with the code points U+6700 U+65B0 U+4EF7.\<close>

definition price_latest :: string where
  "price_latest =
     [CHR 0xE6, CHR 0x9C, CHR 0x80, CHR 0xE6, CHR 0x96, CHR 0xB0, CHR 0xE4, CHR 0xBB,
      CHR 0xB7]"

text \<open>\<open>price_current\<close>: the label with the code points U+73B0 U+4EF7.\<close>

definition price_current :: string where
  "price_current =
     [CHR 0xE7, CHR 0x8E, CHR 0xB0, CHR 0xE4, CHR 0xBB, CHR 0xB7]"

text \<open>\<open>price_close\<close>: the label with the code points U+6536 U+76D8 U+4EF7.\<close>

definition price_close :: string where
  "price_close =
     [CHR 0xE6, CHR 0x94, CHR 0xB6, CHR 0xE7, CHR 0x9B, CHR 0x98, CHR 0xE4, CHR 0xBB,
      CHR 0xB7]"

text \<open>\<open>mktcap_total\<close>: the label with the code points U+603B U+5E02 U+503C.\<close>

definition mktcap_total :: string where
  "mktcap_total =
     [CHR 0xE6, CHR 0x80, CHR 0xBB, CHR 0xE5, CHR 0xB8, CHR 0x82, CHR 0xE5, CHR 0x80,
      CHR 0xBC]"

text \<open>\<open>mktcap_yi\<close>: the label with the code points U+603B U+5E02 U+503C U+0028 U+4EBF U+0029.\<close>

definition mktcap_yi :: string where
  "mktcap_yi =
     [CHR 0xE6, CHR 0x80, CHR 0xBB, CHR 0xE5, CHR 0xB8, CHR 0x82, CHR 0xE5, CHR 0x80,
      CHR 0xBC, CHR 0x28, CHR 0xE4, CHR 0xBA, CHR 0xBF, CHR 0x29]"

text \<open>\<open>mktcap_dash_yi\<close>: the label with the code points U+603B U+5E02 U+503C U+002D U+4EBF.\<close>

definition mktcap_dash_yi :: string where
  "mktcap_dash_yi =
     [CHR 0xE6, CHR 0x80, CHR 0xBB, CHR 0xE5, CHR 0xB8, CHR 0x82, CHR 0xE5, CHR 0x80,
      CHR 0xBC, CHR 0x2D, CHR 0xE4, CHR 0xBA, CHR 0xBF]"

text \<open>\<open>lianban_days\<close>: the label with the code points U+8FDE U+7EED U+6DA8 U+505C U+5929 U+6570.\<close>

definition lianban_days :: string where
  "lianban_days =
     [CHR 0xE8, CHR 0xBF, CHR 0x9E, CHR 0xE7, CHR 0xBB, CHR 0xAD, CHR 0xE6, CHR 0xB6,
      CHR 0xA8, CHR 0xE5, CHR 0x81, CHR 0x9C, CHR 0xE5, CHR 0xA4, CHR 0xA9, CHR 0xE6,
      CHR 0x95, CHR 0xB0]"

text \<open>\<open>lianban_count\<close>: the label with the code points U+8FDE U+677F U+6570.\<close>

definition lianban_count :: string where
  "lianban_count =
     [CHR 0xE8, CHR 0xBF, CHR 0x9E, CHR 0xE6, CHR 0x9D, CHR 0xBF, CHR 0xE6, CHR 0x95,
      CHR 0xB0]"

text \<open>\<open>lianban_times\<close>: the label with the code points U+8FDE U+677F U+6B21 U+6570.\<close>

definition lianban_times :: string where
  "lianban_times =
     [CHR 0xE8, CHR 0xBF, CHR 0x9E, CHR 0xE6, CHR 0x9D, CHR 0xBF, CHR 0xE6, CHR 0xAC,
      CHR 0xA1, CHR 0xE6, CHR 0x95, CHR 0xB0]"

text \<open>\<open>zt_stat\<close>: the label with the code points U+6DA8 U+505C U+7EDF U+8BA1.\<close>

definition zt_stat :: string where
  "zt_stat =
     [CHR 0xE6, CHR 0xB6, CHR 0xA8, CHR 0xE5, CHR 0x81, CHR 0x9C, CHR 0xE7, CHR 0xBB,
      CHR 0x9F, CHR 0xE8, CHR 0xAE, CHR 0xA1]"

text \<open>\<open>half_year_times\<close>: the label with the code points U+534A U+5E74 U+6DA8 U+505C U+6B21 U+6570.\<close>

definition half_year_times :: string where
  "half_year_times =
     [CHR 0xE5, CHR 0x8D, CHR 0x8A, CHR 0xE5, CHR 0xB9, CHR 0xB4, CHR 0xE6, CHR 0xB6,
      CHR 0xA8, CHR 0xE5, CHR 0x81, CHR 0x9C, CHR 0xE6, CHR 0xAC, CHR 0xA1, CHR 0xE6,
      CHR 0x95, CHR 0xB0]"

text \<open>\<open>recent_half_year_times\<close>: the label with the code points U+8FD1 U+534A U+5E74 U+6DA8 U+505C U+6B21 U+6570.\<close>

definition recent_half_year_times :: string where
  "recent_half_year_times =
     [CHR 0xE8, CHR 0xBF, CHR 0x91, CHR 0xE5, CHR 0x8D, CHR 0x8A, CHR 0xE5, CHR 0xB9,
      CHR 0xB4, CHR 0xE6, CHR 0xB6, CHR 0xA8, CHR 0xE5, CHR 0x81, CHR 0x9C, CHR 0xE6,
      CHR 0xAC, CHR 0xA1, CHR 0xE6, CHR 0x95, CHR 0xB0]"

text \<open>\<open>parsed_times\<close>: the label with the code points U+8FD1 U+534A U+5E74 U+6DA8 U+505C U+6B21 U+6570 U+005F U+89E3 U+6790.\<close>

definition parsed_times :: string where
  "parsed_times =
     [CHR 0xE8, CHR 0xBF, CHR 0x91, CHR 0xE5, CHR 0x8D, CHR 0x8A, CHR 0xE5, CHR 0xB9,
      CHR 0xB4, CHR 0xE6, CHR 0xB6, CHR 0xA8, CHR 0xE5, CHR 0x81, CHR 0x9C, CHR 0xE6,
      CHR 0xAC, CHR 0xA1, CHR 0xE6, CHR 0x95, CHR 0xB0, CHR 0x5F, CHR 0xE8, CHR 0xA7,
      CHR 0xA3, CHR 0xE6, CHR 0x9E, CHR 0x90]"

text \<open>\<open>missing_times_label\<close>: the label with the code points U+6DA8 U+505C U+7EDF U+8BA1 U+0028 U+8FD1 U+534A U+5E74 U+6DA8 U+505C U+6B21 U+6570 U+0029.\<close>

definition missing_times_label :: string where
  "missing_times_label =
     [CHR 0xE6, CHR 0xB6, CHR 0xA8, CHR 0xE5, CHR 0x81, CHR 0x9C, CHR 0xE7, CHR 0xBB,
      CHR 0x9F, CHR 0xE8, CHR 0xAE, CHR 0xA1, CHR 0x28, CHR 0xE8, CHR 0xBF, CHR 0x91,
      CHR 0xE5, CHR 0x8D, CHR 0x8A, CHR 0xE5, CHR 0xB9, CHR 0xB4, CHR 0xE6, CHR 0xB6,
      CHR 0xA8, CHR 0xE5, CHR 0x81, CHR 0x9C, CHR 0xE6, CHR 0xAC, CHR 0xA1, CHR 0xE6,
      CHR 0x95, CHR 0xB0, CHR 0x29]"

definition price_cols :: "string list" where
  "price_cols = [price_latest, price_current, price_close]"

definition mktcap_cols :: "string list" where
  "mktcap_cols = [mktcap_total, mktcap_yi, mktcap_dash_yi]"

definition lianban_cols :: "string list" where
  "lianban_cols = [lianban_days, lianban_count, lianban_times]"

definition times_cols :: "string list" where
  "times_cols = [zt_stat, half_year_times, recent_half_year_times]"

section \<open>Tables\<close>

text \<open>
  A pandas DataFrame: the column labels in order and the rows in order, each row with
  its index label and its cells. A row is an association list from column label to
  cell, as pandas presents a row (a Series indexed by the column labels). In a
  well-formed table the labels are distinct and every row carries exactly the columns
  of the table.
\<close>

type_synonym row = "(string \<times> cell) list"

record frame =
  columns :: "string list"
  rows :: "(int \<times> row) list"

definition wf_frame :: "frame \<Rightarrow> bool" where
  "wf_frame df =
     (distinct (columns df) \<and> list_all (\<lambda>r. map fst (snd r) = columns df) (rows df))"

definition cell_at :: "row \<Rightarrow> string \<Rightarrow> cell" where
  "cell_at r c = (case map_of r c of Some v \<Rightarrow> v | None \<Rightarrow> CNull)"

text \<open>\<open>df.empty\<close>: an axis of length zero.\<close>

definition frame_empty :: "frame \<Rightarrow> bool" where
  "frame_empty df = (rows df = [] \<or> columns df = [])"

text \<open>\<open>next((c for c in cands if c in cols), None)\<close>.\<close>

definition first_present :: "string list \<Rightarrow> string list \<Rightarrow> string option" where
  "first_present cands cols = find (\<lambda>c. c \<in> set cols) cands"

text \<open>The column \<open>df[c]\<close> as the list of its cells.\<close>

definition get_column :: "string \<Rightarrow> frame \<Rightarrow> cell list" where
  "get_column c df = map (\<lambda>r. cell_at (snd r) c) (rows df)"

text \<open>
  \<open>df[c] = s\<close> for a series \<open>s\<close> computed row by row from \<open>df\<close>: an existing column
  keeps its place, a new one is added at the end.
\<close>

definition set_column :: "string \<Rightarrow> (row \<Rightarrow> cell) \<Rightarrow> frame \<Rightarrow> frame" where
  "set_column c f df =
     \<lparr>columns = (if c \<in> set (columns df) then columns df else columns df @ [c]),
      rows = map (\<lambda>r. (fst r, AList.update c (f (snd r)) (snd r))) (rows df)\<rparr>"

text \<open>\<open>df[ks]\<close> for a list of labels: KeyError when one of them is not a column.\<close>

definition select_columns :: "string list \<Rightarrow> frame \<Rightarrow> error + frame" where
  "select_columns ks df =
     (if list_all (\<lambda>k. k \<in> set (columns df)) ks
      then Inr \<lparr>columns = ks,
                rows = map (\<lambda>r. (fst r, map (\<lambda>k. (k, cell_at (snd r) k)) ks)) (rows df)\<rparr>
      else Inl KeyError)"

text \<open>\<open>df[mask]\<close> for a boolean series computed row by row.\<close>

definition select_rows :: "(row \<Rightarrow> bool) \<Rightarrow> frame \<Rightarrow> frame" where
  "select_rows keep df = df\<lparr>rows := filter (\<lambda>r. keep (snd r)) (rows df)\<rparr>"

text \<open>\<open>df.rename(columns=m)\<close>: a label that is no key of \<open>m\<close> stays.\<close>

definition rename_label :: "(string \<rightharpoonup> string) \<Rightarrow> string \<Rightarrow> string" where
  "rename_label m k = (case m k of Some k' \<Rightarrow> k' | None \<Rightarrow> k)"

definition rename_columns :: "(string \<rightharpoonup> string) \<Rightarrow> frame \<Rightarrow> frame" where
  "rename_columns m df =
     \<lparr>columns = map (rename_label m) (columns df),
      rows = map (\<lambda>r. (fst r, map (\<lambda>kv. (rename_label m (fst kv), snd kv)) (snd r)))
               (rows df)\<rparr>"

text \<open>\<open>df.reset_index(drop=True)\<close>.\<close>

definition reset_index :: "frame \<Rightarrow> frame" where
  "reset_index df =
     df\<lparr>rows := zip (map int [0..<length (rows df)]) (map snd (rows df))\<rparr>"

subsection \<open>Numeric columns\<close>

text \<open>
  \<open>pd.to_numeric(s, errors="coerce")\<close> turns a string that reads as a number into that
  number and every other string into NaN. How pandas reads a string is a parameter of
  the model: a \<open>coercion\<close> gives the number a string stands for, or \<open>None\<close>.
\<close>

type_synonym coercion = "string \<Rightarrow> fl option"

definition to_numeric :: "coercion \<Rightarrow> cell \<Rightarrow> cell" where
  "to_numeric P x =
     (case x of
        CNull \<Rightarrow> CNull
      | CStr s \<Rightarrow> (case P s of Some v \<Rightarrow> CNum v | None \<Rightarrow> CNull)
      | CNum v \<Rightarrow> CNum v)"

text \<open>A coercion for the examples: it reads the float literals of Python.\<close>

definition literal_coercion :: coercion where
  "literal_coercion s = (case float_of_str s of Some (FVal v) \<Rightarrow> Some v | _ \<Rightarrow> None)"

text \<open>
  The number in a cell of a numeric column. The columns that are compared, scaled and
  sorted have passed through \<open>to_numeric\<close>, so they hold numbers and NaN only.
\<close>

definition as_num :: "cell \<Rightarrow> fl option" where
  "as_num x = (case x of CNum v \<Rightarrow> Some v | _ \<Rightarrow> None)"

text \<open>\<open>s.max()\<close>: the greatest number of the column, NaN skipped; NaN when there is none.\<close>

definition series_max :: "cell list \<Rightarrow> fl option" where
  "series_max xs =
     (case List.map_filter as_num xs of [] \<Rightarrow> None | v # vs \<Rightarrow> Some (fold max vs v))"

text \<open>\<open>x / 1e8\<close> in float64; NaN stays NaN.\<close>

definition div_1e8 :: "cell \<Rightarrow> cell" where
  "div_1e8 x =
     (case x of
        CNum v \<Rightarrow> CNum (case to_float v of Fin r \<Rightarrow> round64 (r / 100000000) | w \<Rightarrow> w)
      | _ \<Rightarrow> x)"

text \<open>The comparisons of a numeric column with a constant: False on NaN.\<close>

definition cell_lt :: "cell \<Rightarrow> fl \<Rightarrow> bool" where
  "cell_lt x k = (case as_num x of Some v \<Rightarrow> v < k | None \<Rightarrow> False)"

definition cell_ge :: "cell \<Rightarrow> fl \<Rightarrow> bool" where
  "cell_ge x k = (case as_num x of Some v \<Rightarrow> k \<le> v | None \<Rightarrow> False)"

definition cell_eq :: "cell \<Rightarrow> fl \<Rightarrow> bool" where
  "cell_eq x k = (case as_num x of Some v \<Rightarrow> v = k | None \<Rightarrow> False)"

subsection \<open>Sorting\<close>

text \<open>
  \<open>df.sort_values(by=..., ascending=...)\<close> with several keys is a stable lexicographic
  sort, NaN last in every key whatever its direction. Each cell becomes a key that is
  compared in ascending order: a flag that is True on NaN, then the number, negated for
  a descending key.
\<close>

definition neg_fl :: "fl \<Rightarrow> fl" where
  "neg_fl v = (case v of NInf \<Rightarrow> PInf | Fin r \<Rightarrow> Fin (- r) | PInf \<Rightarrow> NInf)"

definition sort_key_cell :: "bool \<Rightarrow> cell \<Rightarrow> bool \<times> fl" where
  "sort_key_cell asc x =
     (case as_num x of
        None \<Rightarrow> (True, Fin 0)
      | Some v \<Rightarrow> (False, if asc then v else neg_fl v))"

definition row_sort_key :: "(string \<times> bool) list \<Rightarrow> row \<Rightarrow> (bool \<times> fl) list" where
  "row_sort_key by r = map (\<lambda>ca. sort_key_cell (snd ca) (cell_at r (fst ca))) by"

definition sort_values :: "(string \<times> bool) list \<Rightarrow> frame \<Rightarrow> error + frame" where
  "sort_values by df =
     (if list_all (\<lambda>ca. fst ca \<in> set (columns df)) by
      then Inr (df\<lparr>rows := sort_key (\<lambda>r. row_sort_key by (snd r)) (rows df)\<rparr>)
      else Inl KeyError)"

section \<open>The filter\<close>

text \<open>
  Lines 77 to 92 of the source: when the count column resolves to the composite
  statistics column, a parsed column is added and takes its place.
\<close>

definition parse_times :: "frame \<Rightarrow> string option \<Rightarrow> frame \<times> string option" where
  "parse_times data col_times =
     (if col_times = Some zt_stat \<and> zt_stat \<in> set (columns data)
      then (set_column parsed_times
              (\<lambda>r. CNum (Fin (of_int (extract_half_year_times (cell_at r zt_stat))))) data,
            Some parsed_times)
      else (data, col_times))"

text \<open>Lines 94 to 102: the labels of the fields that did not resolve.\<close>

definition missing_fields ::
  "string option \<Rightarrow> string option \<Rightarrow> string option \<Rightarrow> string option \<Rightarrow> string list" where
  "missing_fields col_price col_mktcap col_lianban col_times =
     (if col_price = None then [price_latest] else [])
     @ (if col_mktcap = None then [mktcap_total] else [])
     @ (if col_lianban = None then [lianban_days] else [])
     @ (if col_times = None then [missing_times_label] else [])"

text \<open>Lines 110 to 112: the resolved columns are coerced one after the other.\<close>

definition coerce_columns :: "coercion \<Rightarrow> string option list \<Rightarrow> frame \<Rightarrow> frame" where
  "coerce_columns P cs data =
     fold (\<lambda>c d. case c of
                   None \<Rightarrow> d
                 | Some k \<Rightarrow> set_column k (\<lambda>r. to_numeric P (cell_at r k)) d) cs data"

text \<open>Lines 115 to 118: the unit of the market cap.\<close>

definition normalize_mktcap :: "string option \<Rightarrow> frame \<Rightarrow> frame" where
  "normalize_mktcap col_mktcap data =
     (case col_mktcap of
        None \<Rightarrow> data
      | Some c \<Rightarrow>
          (case series_max (get_column c data) of
             None \<Rightarrow> data
           | Some m \<Rightarrow>
               if Fin 1000 < m then set_column c (\<lambda>r. div_1e8 (cell_at r c)) data
               else data))"

text \<open>Lines 121 to 125: the five conditions, each True when its column is \<open>None\<close>.\<close>

definition cond_price :: "string option \<Rightarrow> row \<Rightarrow> bool" where
  "cond_price col_price r =
     (case col_price of Some c \<Rightarrow> cell_lt (cell_at r c) (Fin 30) | None \<Rightarrow> True)"

definition cond_mktcap :: "string option \<Rightarrow> row \<Rightarrow> bool" where
  "cond_mktcap col_mktcap r =
     (case col_mktcap of Some c \<Rightarrow> cell_lt (cell_at r c) (Fin 200) | None \<Rightarrow> True)"

definition cond_times :: "string option \<Rightarrow> row \<Rightarrow> bool" where
  "cond_times col_times r =
     (case col_times of Some c \<Rightarrow> cell_ge (cell_at r c) (Fin 3) | None \<Rightarrow> True)"

definition cond_lianban_lt4 :: "string option \<Rightarrow> row \<Rightarrow> bool" where
  "cond_lianban_lt4 col_lianban r =
     (case col_lianban of Some c \<Rightarrow> cell_lt (cell_at r c) (Fin 4) | None \<Rightarrow> True)"

definition cond_first_board :: "string option \<Rightarrow> row \<Rightarrow> bool" where
  "cond_first_board col_lianban r =
     (case col_lianban of Some c \<Rightarrow> cell_eq (cell_at r c) (Fin 1) | None \<Rightarrow> True)"

text \<open>Lines 130 to 138 and 143 to 154: the columns kept and their display labels.\<close>

definition keep_cols ::
  "string option \<Rightarrow> string option \<Rightarrow> string option \<Rightarrow> string option \<Rightarrow> string list" where
  "keep_cols col_price col_mktcap col_lianban col_times =
     [col_code, col_name] @ (case col_price of Some c \<Rightarrow> [c] | None \<Rightarrow> [])
     @ (case col_mktcap of Some c \<Rightarrow> [c] | None \<Rightarrow> [])
     @ (case col_lianban of Some c \<Rightarrow> [c] | None \<Rightarrow> [])
     @ (case col_times of Some c \<Rightarrow> [c] | None \<Rightarrow> [])"

definition put_label :: "string option \<Rightarrow> string \<Rightarrow> (string \<rightharpoonup> string) \<Rightarrow> (string \<rightharpoonup> string)" where
  "put_label c d m = (case c of Some k \<Rightarrow> m(k \<mapsto> d) | None \<Rightarrow> m)"

definition rename_map ::
  "string option \<Rightarrow> string option \<Rightarrow> string option \<Rightarrow> string option \<Rightarrow> (string \<rightharpoonup> string)" where
  "rename_map col_price col_mktcap col_lianban col_times =
     put_label col_times recent_half_year_times
       (put_label col_lianban lianban_count
          (put_label col_mktcap mktcap_yi
             (put_label col_price price_latest
                [col_code \<mapsto> col_code, col_name \<mapsto> col_name])))"

definition sort_spec :: "(string \<times> bool) list" where
  "sort_spec = [(recent_half_year_times, False), (lianban_count, False), (mktcap_yi, True)]"

text \<open>Lines 109 to 118: the table \<open>data\<close> that the conditions are computed on.\<close>

definition prepare ::
  "coercion \<Rightarrow> string option \<Rightarrow> string option \<Rightarrow> string option \<Rightarrow> string option
   \<Rightarrow> frame \<Rightarrow> frame" where
  "prepare P col_price col_mktcap col_lianban col_times data =
     normalize_mktcap col_mktcap
       (coerce_columns P [col_price, col_mktcap, col_lianban, col_times] data)"

text \<open>Lines 120 to 166: filter, project, rename, sort and renumber.\<close>

definition strategy_mask ::
  "string option \<Rightarrow> string option \<Rightarrow> string option \<Rightarrow> string option \<Rightarrow> row \<Rightarrow> bool" where
  "strategy_mask col_price col_mktcap col_lianban col_times r =
     (cond_price col_price r \<and> cond_mktcap col_mktcap r \<and> cond_times col_times r
      \<and> cond_lianban_lt4 col_lianban r \<and> cond_first_board col_lianban r)"

definition finish ::
  "string option \<Rightarrow> string option \<Rightarrow> string option \<Rightarrow> string option \<Rightarrow> frame
   \<Rightarrow> error + frame" where
  "finish col_price col_mktcap col_lianban col_times filtered =
     (case select_columns (keep_cols col_price col_mktcap col_lianban col_times) filtered of
        Inl e \<Rightarrow> Inl e
      | Inr kept \<Rightarrow>
          (case sort_values sort_spec
                  (rename_columns (rename_map col_price col_mktcap col_lianban col_times) kept) of
             Inl e \<Rightarrow> Inl e
           | Inr sorted_rows \<Rightarrow> Inr (reset_index sorted_rows)))"

text \<open>
  \<open>filter_stocks\<close>. The source works on a copy of its argument; here a table is a value
  and the copy is the value itself. The message printed when a field is missing is not
  part of the result.
\<close>

definition filter_stocks :: "coercion \<Rightarrow> frame \<Rightarrow> error + frame" where
  "filter_stocks P df =
     (if frame_empty df then Inr df
      else
        let col_price = first_present price_cols (columns df);
            col_mktcap = first_present mktcap_cols (columns df);
            col_lianban = first_present lianban_cols (columns df);
            (data, col_times) = parse_times df (first_present times_cols (columns df))
        in if missing_fields col_price col_mktcap col_lianban col_times \<noteq> []
           then (if list_all (\<lambda>c. c \<in> set (columns data)) [col_code, col_name]
                 then select_columns [col_code, col_name] data
                 else Inr data)
           else finish col_price col_mktcap col_lianban col_times
                  (select_rows (strategy_mask col_price col_mktcap col_lianban col_times)
                     (prepare P col_price col_mktcap col_lianban col_times data)))"

text \<open>What the filter returns when a field is missing: the code and name columns.\<close>

definition only_code_name :: "frame \<Rightarrow> frame" where
  "only_code_name df =
     \<lparr>columns = [col_code, col_name],
      rows = map (\<lambda>r. (fst r, [(col_code, cell_at (snd r) col_code),
                                (col_name, cell_at (snd r) col_name)])) (rows df)\<rparr>"

text \<open>
  The variant of the filter that the specification compares with: the condition on a
  streak below four days is left out, the first-board condition stays.
\<close>

definition strategy_mask_first_board_only ::
  "string option \<Rightarrow> string option \<Rightarrow> string option \<Rightarrow> string option \<Rightarrow> row \<Rightarrow> bool" where
  "strategy_mask_first_board_only col_price col_mktcap col_lianban col_times r =
     (cond_price col_price r \<and> cond_mktcap col_mktcap r \<and> cond_times col_times r
      \<and> cond_first_board col_lianban r)"

definition filter_stocks_first_board_only :: "coercion \<Rightarrow> frame \<Rightarrow> error + frame" where
  "filter_stocks_first_board_only P df =
     (if frame_empty df then Inr df
      else
        let col_price = first_present price_cols (columns df);
            col_mktcap = first_present mktcap_cols (columns df);
            col_lianban = first_present lianban_cols (columns df);
            (data, col_times) = parse_times df (first_present times_cols (columns df))
        in if missing_fields col_price col_mktcap col_lianban col_times \<noteq> []
           then (if list_all (\<lambda>c. c \<in> set (columns data)) [col_code, col_name]
                 then select_columns [col_code, col_name] data
                 else Inr data)
           else finish col_price col_mktcap col_lianban col_times
                  (select_rows
                     (strategy_mask_first_board_only col_price col_mktcap col_lianban col_times)
                     (prepare P col_price col_mktcap col_lianban col_times data)))"

text \<open>
  The column that holds the count once the composite column is parsed, the table the
  conditions are computed on, and the row of the result made from a row of that table.
\<close>

definition count_column :: "string \<Rightarrow> string" where
  "count_column t0 = (if t0 = zt_stat then parsed_times else t0)"

definition prepared :: "coercion \<Rightarrow> frame \<Rightarrow> frame" where
  "prepared P df =
     (let (data, col_times) = parse_times df (first_present times_cols (columns df))
      in prepare P (first_present price_cols (columns df))
           (first_present mktcap_cols (columns df))
           (first_present lianban_cols (columns df)) col_times data)"

definition display_cols :: "string list" where
  "display_cols =
     [col_code, col_name, price_latest, mktcap_yi, lianban_count, recent_half_year_times]"

definition display :: "string \<Rightarrow> string \<Rightarrow> string \<Rightarrow> string \<Rightarrow> row \<Rightarrow> row" where
  "display p m l t r =
     [(col_code, cell_at r col_code), (col_name, cell_at r col_name),
      (price_latest, cell_at r p), (mktcap_yi, cell_at r m),
      (lianban_count, cell_at r l), (recent_half_year_times, cell_at r t)]"

text \<open>
  The five conditions in the words of the specification, for a row with the price, the
  market cap, the consecutive limit days and the half-year count in the columns
  \<open>p\<close>, \<open>m\<close>, \<open>l\<close> and \<open>t\<close>.
\<close>

definition num_at :: "row \<Rightarrow> string \<Rightarrow> fl option" where
  "num_at r c = as_num (cell_at r c)"

definition passes :: "string \<Rightarrow> string \<Rightarrow> string \<Rightarrow> string \<Rightarrow> row \<Rightarrow> bool" where
  "passes p m l t r =
     (case (num_at r p, num_at r m, num_at r l, num_at r t) of
        (Some price, Some cap, Some days, Some cnt) \<Rightarrow>
          price < Fin 30 \<and> cap < Fin 200 \<and> Fin 3 \<le> cnt \<and> days < Fin 4 \<and> days = Fin 1
      | _ \<Rightarrow> False)"

text \<open>
  The order of the result in the words of the specification: a row comes before another
  when its half-year count is greater, or the counts are equal and its consecutive
  limit days are greater, or these are equal too and its market cap is not greater.
\<close>

definition sort_triple :: "row \<Rightarrow> fl option \<times> fl option \<times> fl option" where
  "sort_triple r =
     (num_at r recent_half_year_times, num_at r lianban_count, num_at r mktcap_yi)"

definition ordered_before :: "row \<Rightarrow> row \<Rightarrow> bool" where
  "ordered_before r s =
     (case (sort_triple r, sort_triple s) of
        ((Some c, Some d, Some k), (Some c', Some d', Some k')) \<Rightarrow>
          c' < c \<or> (c = c' \<and> (d' < d \<or> (d = d' \<and> k \<le> k')))
      | _ \<Rightarrow> False)"


text \<open>
  The shape of a table that the main path returns: the display columns, every row with
  exactly these columns and passing the five conditions, the rows in sorted order and
  numbered from 0.
\<close>

definition out_row :: "row \<Rightarrow> bool" where
  "out_row r =
     (map fst r = display_cols
      \<and> passes price_latest mktcap_yi lianban_count recent_half_year_times r)"

definition settled :: "frame \<Rightarrow> bool" where
  "settled F =
     (columns F = display_cols \<and> list_all (\<lambda>r. out_row (snd r)) (rows F)
      \<and> sorted (map (\<lambda>r. row_sort_key sort_spec (snd r)) (rows F))
      \<and> map fst (rows F) = map int [0..<length (rows F)])"

section \<open>Example tables\<close>

definition sample_table :: frame where
  "sample_table =
     \<lparr>columns = [col_code, col_name, price_latest, mktcap_total, lianban_days, zt_stat],
      rows = [(5, [(col_code, CStr ''000001''), (col_name, CStr ''A''),
                   (price_latest, CStr ''12.5''), (mktcap_total, CNum (Fin 5000000000)),
                   (lianban_days, CNum (Fin 1)), (zt_stat, CStr ''5/3'')]),
              (7, [(col_code, CStr ''000002''), (col_name, CStr ''B''),
                   (price_latest, CNum (Fin 40)), (mktcap_total, CNum (Fin 8000000000)),
                   (lianban_days, CNum (Fin 1)), (zt_stat, CStr ''9/5'')]),
              (9, [(col_code, CStr ''000003''), (col_name, CStr ''C''),
                   (price_latest, CNum (Fin 10)), (mktcap_total, CNum (Fin 3000000000)),
                   (lianban_days, CNum (Fin 1)), (zt_stat, CStr ''9/5'')]),
              (11, [(col_code, CStr ''000004''), (col_name, CStr ''D''),
                    (price_latest, CStr ''--''), (mktcap_total, CNum (Fin 3000000000)),
                    (lianban_days, CNum (Fin 1)), (zt_stat, CStr ''9/5'')])]\<rparr>"

definition sample_result :: frame where
  "sample_result =
     \<lparr>columns = display_cols,
      rows = [(0, [(col_code, CStr ''000003''), (col_name, CStr ''C''),
                   (price_latest, CNum (Fin 10)), (mktcap_yi, CNum (Fin 30)),
                   (lianban_count, CNum (Fin 1)), (recent_half_year_times, CNum (Fin 5))]),
              (1, [(col_code, CStr ''000001''), (col_name, CStr ''A''),
                   (price_latest, CNum (Fin (25 / 2))), (mktcap_yi, CNum (Fin 50)),
                   (lianban_count, CNum (Fin 1)), (recent_half_year_times, CNum (Fin 3))])]\<rparr>"

definition caps_small :: frame where
  "caps_small =
     \<lparr>columns = [mktcap_total],
      rows = [(0, [(mktcap_total, CNum (Fin 50))]), (1, [(mktcap_total, CNum (Fin 80))]),
              (2, [(mktcap_total, CNum (Fin 120))])]\<rparr>"

definition caps_large :: frame where
  "caps_large =
     \<lparr>columns = [mktcap_total],
      rows = [(0, [(mktcap_total, CNum (Fin 5000000000))]),
              (1, [(mktcap_total, CNum (Fin 8000000000))])]\<rparr>"




section \<open>Labels and basic table operations\<close>

lemmas label_defs = col_code_def col_name_def price_latest_def price_current_def
  price_close_def mktcap_total_def mktcap_yi_def mktcap_dash_yi_def lianban_days_def
  lianban_count_def lianban_times_def zt_stat_def half_year_times_def
  recent_half_year_times_def parsed_times_def

lemma labels_distinct:
  "distinct [col_code, col_name, price_latest, price_current, price_close, mktcap_total,
     mktcap_yi, mktcap_dash_yi, lianban_days, lianban_count, lianban_times, zt_stat,
     half_year_times, recent_half_year_times, parsed_times]"
  by (simp add: label_defs)

lemma cell_at_update:
  "cell_at (AList.update c v r) c' = (if c' = c then v else cell_at r c')"
  by (simp add: cell_at_def update_conv')

lemma parsed_not_code: "parsed_times \<noteq> col_code" "parsed_times \<noteq> col_name"
  using labels_distinct by auto

lemma select_code_name_parsed:
  assumes "col_code \<in> set (columns df)" "col_name \<in> set (columns df)"
  shows "select_columns [col_code, col_name] (fst (parse_times df ct)) = Inr (only_code_name df)"
  using assms parsed_not_code
  by (auto simp: select_columns_def parse_times_def set_column_def only_code_name_def
      cell_at_update)

lemma filter_stocks_missing:
  assumes ne: "\<not> frame_empty df"
    and code: "col_code \<in> set (columns df)" and name: "col_name \<in> set (columns df)"
    and miss: "missing_fields (first_present price_cols (columns df))
                 (first_present mktcap_cols (columns df))
                 (first_present lianban_cols (columns df))
                 (snd (parse_times df (first_present times_cols (columns df)))) \<noteq> []"
  shows "filter_stocks P df = Inr (only_code_name df)"
proof -
  obtain data ct where pt: "parse_times df (first_present times_cols (columns df)) = (data, ct)"
    by (cases "parse_times df (first_present times_cols (columns df))")
  have cols: "col_code \<in> set (columns data)" "col_name \<in> set (columns data)"
    using pt code name by (auto simp: parse_times_def set_column_def split: if_splits)
  have sel: "select_columns [col_code, col_name] data = Inr (only_code_name df)"
    using select_code_name_parsed [OF code name, of "first_present times_cols (columns df)"] pt
    by simp
  show ?thesis
    using ne miss pt cols sel by (simp add: filter_stocks_def)
qed


lemma missing_fields_Nil:
  "missing_fields cp cm cl ct = [] \<longleftrightarrow> cp \<noteq> None \<and> cm \<noteq> None \<and> cl \<noteq> None \<and> ct \<noteq> None"
  by (simp add: missing_fields_def)

section \<open>A missing field\<close>




section \<open>The first-board condition\<close>
lemma first_board_implies_lt4: "cond_first_board cl r \<Longrightarrow> cond_lianban_lt4 cl r"
  by (auto simp: cond_first_board_def cond_lianban_lt4_def cell_eq_def cell_lt_def
      less_fl_def split: option.splits)

text \<open>
  Claim C8. The first-board condition subsumes the condition on the streak length:
  \<open>filter_stocks\<close>, which conjoins both, returns on every table exactly what the variant
  returns that leaves the streak-length condition out.
\<close>

theorem first_board_subsumes_lt4:
  "filter_stocks_first_board_only P df = filter_stocks P df"
proof -
  have eq: "strategy_mask_first_board_only cp cm cl ct = strategy_mask cp cm cl ct"
    for cp cm cl ct
    using first_board_implies_lt4
    by (auto simp: strategy_mask_first_board_only_def strategy_mask_def fun_eq_iff)
  show ?thesis
    unfolding filter_stocks_first_board_only_def filter_stocks_def eq ..
qed




section \<open>The unit of the market cap\<close>

lemma fold_max_Max: "fold max vs (v :: fl) = Max (set (v # vs))"
  using Max.set_eq_fold [of v vs] by simp

lemma series_max_None:
  "series_max xs = None \<longleftrightarrow> List.map_filter as_num xs = []"
  by (simp add: series_max_def split: list.splits)

lemma series_max_Some:
  assumes "series_max xs = Some m"
  shows "m \<in> set (List.map_filter as_num xs)"
    and "\<forall>v \<in> set (List.map_filter as_num xs). v \<le> m"
proof -
  from assms obtain v vs where vs: "List.map_filter as_num xs = v # vs"
    and m: "m = Max (set (v # vs))"
    by (auto simp: series_max_def fold_max_Max split: list.splits)
  have "Max (set (v # vs)) \<in> set (v # vs)" by (rule Max_in) simp_all
  with vs m show "m \<in> set (List.map_filter as_num xs)" by simp
  show "\<forall>v \<in> set (List.map_filter as_num xs). v \<le> m"
    using vs m by (auto intro: Max_ge)
qed

lemma series_max_exceeds:
  "(\<exists>m. series_max xs = Some m \<and> k < m) \<longleftrightarrow> (\<exists>v \<in> set (List.map_filter as_num xs). k < v)"
proof
  assume "\<exists>m. series_max xs = Some m \<and> k < m"
  then show "\<exists>v \<in> set (List.map_filter as_num xs). k < v"
    using series_max_Some(1) by blast
next
  assume "\<exists>v \<in> set (List.map_filter as_num xs). k < v"
  then obtain v where v: "v \<in> set (List.map_filter as_num xs)" "k < v" by blast
  then have "List.map_filter as_num xs \<noteq> []" by auto
  then obtain m where m: "series_max xs = Some m"
    using series_max_None [of xs] by (cases "series_max xs") auto
  with v series_max_Some(2) [OF m] have "k < m" by force
  with m show "\<exists>m. series_max xs = Some m \<and> k < m" by blast
qed

lemma get_column_set_column:
  "get_column c (set_column c f df) = map (\<lambda>r. f (snd r)) (rows df)"
  by (simp add: get_column_def set_column_def cell_at_update comp_def)

text \<open>
  Claim C3. Unit normalization: when some entry of the market-cap column exceeds 1000,
  that is when the maximum of the column does, every entry of the column is divided by
  1e8; otherwise (the maximum is at most 1000, or there is no number in the column) the
  table is left unchanged. The column 50, 80, 120 stays as it is and the column 5e9, 8e9
  becomes 50, 80.
\<close>

theorem normalize_mktcap_units:
  "(if \<exists>v \<in> set (List.map_filter as_num (get_column c data)). Fin 1000 < v
    then get_column c (normalize_mktcap (Some c) data) = map div_1e8 (get_column c data)
    else normalize_mktcap (Some c) data = data)
   \<and> get_column mktcap_total (normalize_mktcap (Some mktcap_total) caps_small)
       = [CNum (Fin 50), CNum (Fin 80), CNum (Fin 120)]
   \<and> get_column mktcap_total (normalize_mktcap (Some mktcap_total) caps_large)
       = [CNum (Fin 50), CNum (Fin 80)]"
proof -
  have a: "get_column c (normalize_mktcap (Some c) data) = map div_1e8 (get_column c data)"
    if "\<exists>v \<in> set (List.map_filter as_num (get_column c data)). Fin 1000 < v"
  proof -
    from that obtain m where "series_max (get_column c data) = Some m" "Fin 1000 < m"
      using series_max_exceeds [of "get_column c data" "Fin 1000"] by blast
    then show ?thesis
      by (simp add: normalize_mktcap_def get_column_set_column) (simp add: get_column_def)
  qed
  have b: "normalize_mktcap (Some c) data = data"
    if "\<not> (\<exists>v \<in> set (List.map_filter as_num (get_column c data)). Fin 1000 < v)"
    using that series_max_exceeds [of "get_column c data" "Fin 1000"]
    by (auto simp: normalize_mktcap_def split: option.splits)
  have e1: "get_column mktcap_total (normalize_mktcap (Some mktcap_total) caps_small)
       = [CNum (Fin 50), CNum (Fin 80), CNum (Fin 120)]" by code_simp
  have e2: "get_column mktcap_total (normalize_mktcap (Some mktcap_total) caps_large)
       = [CNum (Fin 50), CNum (Fin 80)]" by code_simp
  from a b e1 e2 show ?thesis by presburger
qed

theorem normalize_mktcap_units_witness:
  "(\<exists>v \<in> set (List.map_filter as_num (get_column mktcap_total caps_large)). Fin 1000 < v)
   \<and> get_column mktcap_total (normalize_mktcap (Some mktcap_total) caps_large)
       = map div_1e8 (get_column mktcap_total caps_large)
   \<and> \<not> (\<exists>v \<in> set (List.map_filter as_num (get_column mktcap_total caps_small)). Fin 1000 < v)
   \<and> normalize_mktcap (Some mktcap_total) caps_small = caps_small"
proof -
  have h1: "\<exists>v \<in> set (List.map_filter as_num (get_column mktcap_total caps_large)). Fin 1000 < v"
    by code_simp
  have h2: "\<not> (\<exists>v \<in> set (List.map_filter as_num (get_column mktcap_total caps_small)).
               Fin 1000 < v)"
    by code_simp
  show ?thesis
    using h1 h2 normalize_mktcap_units [of mktcap_total caps_large]
      normalize_mktcap_units [of mktcap_total caps_small]
    by simp
qed

section \<open>The result on the main path\<close>

lemma first_present_Some:
  "first_present cands cols = Some c \<Longrightarrow> c \<in> set cands \<and> c \<in> set cols"
  by (auto simp: first_present_def find_Some_iff)

lemma resolved_distinct:
  assumes "p \<in> set price_cols" "m \<in> set mktcap_cols" "l \<in> set lianban_cols"
    and "t0 \<in> set times_cols"
  shows "distinct [col_code, col_name, p, m, l, count_column t0]"
  using assms labels_distinct
  by (auto simp: price_cols_def mktcap_cols_def lianban_cols_def times_cols_def
      count_column_def)

lemma parse_times_Some:
  assumes "t0 \<in> set (columns df)"
  shows "parse_times df (Some t0) =
     ((if t0 = zt_stat
       then set_column parsed_times
              (\<lambda>r. CNum (Fin (of_int (extract_half_year_times (cell_at r zt_stat))))) df
       else df), Some (count_column t0))"
  using assms by (auto simp: parse_times_def count_column_def)

lemma columns_set_column:
  "set (columns (set_column c f df)) = insert c (set (columns df))"
  by (auto simp: set_column_def)

lemma columns_set_column_present:
  "c \<in> set (columns df) \<Longrightarrow> columns (set_column c f df) = columns df"
  by (simp add: set_column_def)

lemma count_column_in_parsed:
  assumes "t0 \<in> set (columns df)"
  shows "count_column t0 \<in> set (columns (fst (parse_times df (Some t0))))"
  using assms by (simp add: parse_times_Some columns_set_column) (simp add: count_column_def)

lemma columns_parsed_subset:
  "set (columns df) \<subseteq> set (columns (fst (parse_times df ct)))"
  by (auto simp: parse_times_def columns_set_column)

lemma columns_coerce_columns:
  assumes "p \<in> set (columns d)" "m \<in> set (columns d)" "l \<in> set (columns d)"
    "t \<in> set (columns d)"
  shows "columns (coerce_columns P [Some p, Some m, Some l, Some t] d) = columns d"
  using assms by (simp add: coerce_columns_def columns_set_column_present)

lemma columns_normalize_mktcap:
  "m \<in> set (columns d) \<Longrightarrow> columns (normalize_mktcap (Some m) d) = columns d"
  by (simp add: normalize_mktcap_def columns_set_column_present split: option.splits)

lemma columns_prepare:
  assumes "p \<in> set (columns d)" "m \<in> set (columns d)" "l \<in> set (columns d)"
    "t \<in> set (columns d)"
  shows "columns (prepare P (Some p) (Some m) (Some l) (Some t) d) = columns d"
  using assms by (simp add: prepare_def columns_normalize_mktcap columns_coerce_columns)

lemma map_snd_sort_key:
  "map snd (sort_key (\<lambda>r. K (snd r)) xs) = sort_key K (map snd xs)"
proof (induction xs)
  case Nil
  show ?case by simp
next
  case (Cons x xs)
  have ins: "map snd (insort_key (\<lambda>r. K (snd r)) a ys) = insort_key K (snd a) (map snd ys)"
    for a :: "'b \<times> 'a" and ys
    by (induction ys) simp_all
  from Cons show ?case by (simp add: ins)
qed

lemma rename_display:
  assumes d: "distinct [col_code, col_name, p, m, l, t]"
  shows "map (rename_label (rename_map (Some p) (Some m) (Some l) (Some t)))
           [col_code, col_name, p, m, l, t] = display_cols"
  using d by (auto simp: rename_label_def rename_map_def put_label_def display_cols_def)

lemma finish_main:
  assumes d: "distinct [col_code, col_name, p, m, l, t]"
    and cols: "p \<in> set (columns F)" "m \<in> set (columns F)" "l \<in> set (columns F)"
      "t \<in> set (columns F)"
  shows "finish (Some p) (Some m) (Some l) (Some t) F =
     (if col_code \<in> set (columns F) \<and> col_name \<in> set (columns F)
      then Inr \<lparr>columns = display_cols,
                rows = zip (map int [0..<length (rows F)])
                         (sort_key (row_sort_key sort_spec)
                            (map (\<lambda>r. display p m l t (snd r)) (rows F)))\<rparr>
      else Inl KeyError)"
proof (cases "col_code \<in> set (columns F) \<and> col_name \<in> set (columns F)")
  case False
  then show ?thesis
    by (auto simp: finish_def keep_cols_def select_columns_def)
next
  case True
  let ?kept = "\<lparr>columns = [col_code, col_name, p, m, l, t],
      rows = map (\<lambda>r. (fst r, [(col_code, cell_at (snd r) col_code),
                   (col_name, cell_at (snd r) col_name), (p, cell_at (snd r) p),
                   (m, cell_at (snd r) m), (l, cell_at (snd r) l), (t, cell_at (snd r) t)]))
               (rows F)\<rparr>"
  have sel: "select_columns (keep_cols (Some p) (Some m) (Some l) (Some t)) F = Inr ?kept"
    using True cols by (simp add: keep_cols_def select_columns_def)
  let ?rm = "rename_map (Some p) (Some m) (Some l) (Some t)"
  have rl: "rename_label ?rm col_code = col_code" "rename_label ?rm col_name = col_name"
    "rename_label ?rm p = price_latest" "rename_label ?rm m = mktcap_yi"
    "rename_label ?rm l = lianban_count" "rename_label ?rm t = recent_half_year_times"
    using rename_display [OF d] by (simp_all add: display_cols_def)
  have ren: "rename_columns ?rm ?kept =
      \<lparr>columns = display_cols, rows = map (\<lambda>r. (fst r, display p m l t (snd r))) (rows F)\<rparr>"
    by (simp add: rename_columns_def rl display_cols_def display_def comp_def)
  have keys: "list_all (\<lambda>ca. fst ca \<in> set display_cols) sort_spec"
    by (simp add: sort_spec_def display_cols_def)
  have srt: "sort_values sort_spec (rename_columns ?rm ?kept) =
      Inr \<lparr>columns = display_cols,
           rows = sort_key (\<lambda>r. row_sort_key sort_spec (snd r))
                    (map (\<lambda>r. (fst r, display p m l t (snd r))) (rows F))\<rparr>"
    unfolding ren using keys by (simp add: sort_values_def)
  have "map snd (sort_key (\<lambda>r. row_sort_key sort_spec (snd r))
                    (map (\<lambda>r. (fst r, display p m l t (snd r))) (rows F)))
        = sort_key (row_sort_key sort_spec) (map (\<lambda>r. display p m l t (snd r)) (rows F))"
    by (simp add: map_snd_sort_key comp_def)
  then show ?thesis
    using True by (simp add: finish_def sel srt reset_index_def)
qed


lemma display_cols_distinct: "distinct display_cols"
  using labels_distinct by (simp add: display_cols_def)

lemma cell_at_display:
  "cell_at (display p m l t r) col_code = cell_at r col_code"
  "cell_at (display p m l t r) col_name = cell_at r col_name"
  "cell_at (display p m l t r) price_latest = cell_at r p"
  "cell_at (display p m l t r) mktcap_yi = cell_at r m"
  "cell_at (display p m l t r) lianban_count = cell_at r l"
  "cell_at (display p m l t r) recent_half_year_times = cell_at r t"
  using display_cols_distinct by (auto simp: display_def cell_at_def display_cols_def)

lemma passes_display:
  "passes price_latest mktcap_yi lianban_count recent_half_year_times (display p m l t r)
   = passes p m l t r"
  by (simp add: passes_def num_at_def cell_at_display)

lemma strategy_mask_passes:
  "strategy_mask (Some p) (Some m) (Some l) (Some t) r = passes p m l t r"
  by (auto simp: strategy_mask_def passes_def num_at_def cond_price_def cond_mktcap_def
      cond_times_def cond_lianban_lt4_def cond_first_board_def cell_lt_def cell_ge_def
      cell_eq_def split: option.splits)

lemma index_set_column: "map fst (rows (set_column c f df)) = map fst (rows df)"
  by (simp add: set_column_def comp_def)

lemma index_coerce_columns: "map fst (rows (coerce_columns P cs d)) = map fst (rows d)"
  unfolding coerce_columns_def
  by (induction cs arbitrary: d) (simp_all add: index_set_column split: option.splits)

lemma index_normalize_mktcap: "map fst (rows (normalize_mktcap cm d)) = map fst (rows d)"
  by (simp add: normalize_mktcap_def index_set_column split: option.splits)

lemma index_parse_times: "map fst (rows (fst (parse_times df ct))) = map fst (rows df)"
  by (simp add: parse_times_def index_set_column)

lemma index_prepared: "map fst (rows (prepared P df)) = map fst (rows df)"
  by (simp add: prepared_def prepare_def index_normalize_mktcap index_coerce_columns
      split: prod.splits)
    (metis fst_conv index_parse_times)

lemma rows_prepared_Nil: "rows df = [] \<Longrightarrow> rows (prepared P df) = []"
  using index_prepared [of P df] by simp

text \<open>The rows of the result on the main path, before they are renumbered.\<close>

lemma filter_stocks_main:
  assumes ne: "\<not> frame_empty df"
    and p: "first_present price_cols (columns df) = Some p"
    and m: "first_present mktcap_cols (columns df) = Some m"
    and l: "first_present lianban_cols (columns df) = Some l"
    and t0: "first_present times_cols (columns df) = Some t0"
  shows "filter_stocks P df =
     (if col_code \<in> set (columns df) \<and> col_name \<in> set (columns df)
      then Inr \<lparr>columns = display_cols,
                rows = zip (map int [0..<length (filter (passes p m l (count_column t0))
                                                   (map snd (rows (prepared P df))))])
                         (sort_key (row_sort_key sort_spec)
                            (map (display p m l (count_column t0))
                               (filter (passes p m l (count_column t0))
                                  (map snd (rows (prepared P df))))))\<rparr>
      else Inl KeyError)"
proof -
  let ?t = "count_column t0"
  from p m l t0 have mem: "p \<in> set price_cols" "m \<in> set mktcap_cols" "l \<in> set lianban_cols"
    "t0 \<in> set times_cols" and cols: "p \<in> set (columns df)" "m \<in> set (columns df)"
    "l \<in> set (columns df)" "t0 \<in> set (columns df)"
    by (auto dest: first_present_Some)
  have d: "distinct [col_code, col_name, p, m, l, ?t]"
    using mem by (rule resolved_distinct)
  obtain data where pt: "parse_times df (Some t0) = (data, Some ?t)"
    using parse_times_Some [OF cols(4)] by simp
  have data: "data = fst (parse_times df (Some t0))" using pt by simp
  have sub: "set (columns df) \<subseteq> set (columns data)"
    unfolding data by (rule columns_parsed_subset)
  have tin: "?t \<in> set (columns data)"
    unfolding data using cols(4) by (rule count_column_in_parsed)
  have code_iff: "col_code \<in> set (columns data) \<longleftrightarrow> col_code \<in> set (columns df)"
    "col_name \<in> set (columns data) \<longleftrightarrow> col_name \<in> set (columns df)"
    using parsed_not_code unfolding data
    by (auto simp: parse_times_def columns_set_column)
  let ?prep = "prepare P (Some p) (Some m) (Some l) (Some ?t) data"
  have prep: "prepared P df = ?prep"
    by (simp add: prepared_def p m l t0 pt)
  have cprep: "columns ?prep = columns data"
    using cols sub tin by (intro columns_prepare) auto
  let ?F = "select_rows (strategy_mask (Some p) (Some m) (Some l) (Some ?t)) ?prep"
  have cF: "columns ?F = columns data" by (simp add: select_rows_def cprep)
  have rF: "rows ?F = filter (\<lambda>r. passes p m l ?t (snd r)) (rows ?prep)"
    by (simp add: select_rows_def strategy_mask_passes)
  have fs: "filter_stocks P df = finish (Some p) (Some m) (Some l) (Some ?t) ?F"
    using ne by (simp add: filter_stocks_def p m l t0 pt missing_fields_def Let_def)
  have fin: "finish (Some p) (Some m) (Some l) (Some ?t) ?F =
     (if col_code \<in> set (columns ?F) \<and> col_name \<in> set (columns ?F)
      then Inr \<lparr>columns = display_cols,
                rows = zip (map int [0..<length (rows ?F)])
                         (sort_key (row_sort_key sort_spec)
                            (map (\<lambda>r. display p m l ?t (snd r)) (rows ?F)))\<rparr>
      else Inl KeyError)"
    using d cols sub tin by (intro finish_main) (auto simp: cF)
  have len: "length (rows ?F) = length (filter (passes p m l ?t) (map snd (rows ?prep)))"
    by (simp add: rF filter_map comp_def)
  have mp: "map (\<lambda>r. display p m l ?t (snd r)) (rows ?F)
      = map (display p m l ?t) (filter (passes p m l ?t) (map snd (rows ?prep)))"
    by (simp add: rF filter_map comp_def)
  show ?thesis
    unfolding fs fin len mp prep cF code_iff ..
qed

text \<open>
  Claim C1. For every table in which all four fields (price, market cap, consecutive
  limit days, half-year count) resolve to present columns, every row of the table that
  \<open>filter_stocks\<close> returns satisfies price < 30, market cap < 200 (after the unit
  normalization), half-year count >= 3, consecutive limit days < 4 and consecutive
  limit days = 1; and the rows returned are exactly the rows of the normalized table
  that satisfy all five conditions, each one once.
\<close>
theorem filtered_rows_satisfy_all_conditions:
  assumes "first_present price_cols (columns df) = Some p"
    and "first_present mktcap_cols (columns df) = Some m"
    and "first_present lianban_cols (columns df) = Some l"
    and "first_present times_cols (columns df) = Some t0"
    and "filter_stocks P df = Inr out"
  shows "(\<forall>r \<in> set (rows out).
            passes price_latest mktcap_yi lianban_count recent_half_year_times (snd r))
         \<and> mset (map snd (rows out)) =
             mset (map (display p m l (count_column t0))
                     (filter (passes p m l (count_column t0))
                        (map snd (rows (prepared P df)))))"
proof (cases "frame_empty df")
  case True
  with assms(1) have "rows df = []"
    by (auto simp: frame_empty_def dest: first_present_Some)
  moreover from True assms(5) have "out = df" by (simp add: filter_stocks_def)
  ultimately show ?thesis by (simp add: rows_prepared_Nil)
next
  case False
  let ?xs = "filter (passes p m l (count_column t0)) (map snd (rows (prepared P df)))"
  let ?ys = "sort_key (row_sort_key sort_spec) (map (display p m l (count_column t0)) ?xs)"
  from filter_stocks_main [OF False assms(1-4), of P] assms(5)
  have out: "out = \<lparr>columns = display_cols, rows = zip (map int [0..<length ?xs]) ?ys\<rparr>"
    by (simp split: if_splits)
  have snd_rows: "map snd (rows out) = ?ys" by (simp add: out)
  have "\<forall>r \<in> set ?ys. passes price_latest mktcap_yi lianban_count recent_half_year_times r"
    by (auto simp: passes_display)
  then have a: "\<forall>r \<in> set (rows out).
      passes price_latest mktcap_yi lianban_count recent_half_year_times (snd r)"
    unfolding snd_rows [symmetric] by simp
  have b: "mset (map snd (rows out)) = mset (map (display p m l (count_column t0)) ?xs)"
    unfolding snd_rows by simp
  from a b show ?thesis by blast
qed


theorem filtered_rows_satisfy_all_conditions_witness:
  "first_present price_cols (columns sample_table) = Some price_latest
   \<and> first_present mktcap_cols (columns sample_table) = Some mktcap_total
   \<and> first_present lianban_cols (columns sample_table) = Some lianban_days
   \<and> first_present times_cols (columns sample_table) = Some zt_stat
   \<and> filter_stocks literal_coercion sample_table = Inr sample_result
   \<and> list_all (\<lambda>r. passes price_latest mktcap_yi lianban_count recent_half_year_times (snd r))
        (rows sample_result)
   \<and> mset (map snd (rows sample_result)) =
       mset (map (display price_latest mktcap_total lianban_days (count_column zt_stat))
               (filter (passes price_latest mktcap_total lianban_days (count_column zt_stat))
                  (map snd (rows (prepared literal_coercion sample_table)))))"
proof -
  have h1: "first_present price_cols (columns sample_table) = Some price_latest"
    by code_simp
  have h2: "first_present mktcap_cols (columns sample_table) = Some mktcap_total"
    by code_simp
  have h3: "first_present lianban_cols (columns sample_table) = Some lianban_days"
    by code_simp
  have h4: "first_present times_cols (columns sample_table) = Some zt_stat"
    by code_simp
  have h5: "filter_stocks literal_coercion sample_table = Inr sample_result"
    by code_simp
  show ?thesis
    using h1 h2 h3 h4 h5 filtered_rows_satisfy_all_conditions [OF h1 h2 h3 h4 h5]
    by (simp add: list_all_iff)
qed

lemma neg_fl_less [simp]: "neg_fl a < neg_fl b \<longleftrightarrow> b < a"
  by (cases a; cases b) (auto simp: neg_fl_def less_fl_def)

lemma neg_fl_le [simp]: "neg_fl a \<le> neg_fl b \<longleftrightarrow> b \<le> a"
  by (cases a; cases b) (auto simp: neg_fl_def)

lemma neg_fl_eq [simp]: "neg_fl a = neg_fl b \<longleftrightarrow> a = b"
  by (cases a; cases b) (auto simp: neg_fl_def)

text \<open>The key of a row as a function of the three numbers it is sorted by.\<close>

lemma row_sort_key_triple:
  "row_sort_key sort_spec r =
     (case sort_triple r of (c, d, k) \<Rightarrow>
        [case c of None \<Rightarrow> (True, Fin 0) | Some v \<Rightarrow> (False, neg_fl v),
         case d of None \<Rightarrow> (True, Fin 0) | Some v \<Rightarrow> (False, neg_fl v),
         case k of None \<Rightarrow> (True, Fin 0) | Some v \<Rightarrow> (False, v)])"
  by (simp add: row_sort_key_def sort_spec_def sort_triple_def sort_key_cell_def num_at_def
      split: option.splits)

lemma row_sort_key_inj:
  "row_sort_key sort_spec r = row_sort_key sort_spec s \<longleftrightarrow> sort_triple r = sort_triple s"
  by (cases "sort_triple r"; cases "sort_triple s")
     (auto simp: row_sort_key_triple split: option.splits)

lemma passes_triple:
  assumes "passes price_latest mktcap_yi lianban_count recent_half_year_times r"
  shows "\<exists>c d k. sort_triple r = (Some c, Some d, Some k)"
  using assms by (auto simp: passes_def sort_triple_def split: option.splits)

lemma key_le_ordered_before:
  assumes "sort_triple r = (Some c, Some d, Some k)"
    and "sort_triple s = (Some c', Some d', Some k')"
    and "row_sort_key sort_spec r \<le> row_sort_key sort_spec s"
  shows "ordered_before r s"
  using assms by (auto simp: row_sort_key_triple ordered_before_def less_le)

lemma sort_key_stable_triple:
  "filter (\<lambda>r. sort_triple r = k) (sort_key (row_sort_key sort_spec) xs)
   = filter (\<lambda>r. sort_triple r = k) xs"
proof (cases "\<exists>s \<in> set xs. sort_triple s = k")
  case True
  then obtain s where s: "sort_triple s = k" by blast
  have eq: "(\<lambda>r. sort_triple r = k) = (\<lambda>r. row_sort_key sort_spec r = row_sort_key sort_spec s)"
    by (simp add: row_sort_key_inj s)
  show ?thesis unfolding eq by (rule sort_key_stable)
next
  case False
  then have "filter (\<lambda>r. sort_triple r = k) xs = []" by (auto simp: filter_empty_conv)
  moreover from False have "filter (\<lambda>r. sort_triple r = k) (sort_key (row_sort_key sort_spec) xs) = []"
    by (auto simp: filter_empty_conv)
  ultimately show ?thesis by simp
qed

text \<open>
  Claim C4. For every table with all four fields resolvable, the table that
  \<open>filter_stocks\<close> returns is sorted by half-year count descending, then consecutive
  limit days descending, then market cap ascending; the sort is stable (rows equal on
  the three keys keep the order they had before the sort); and the index is the
  sequence 0, 1, ..., n - 1.
\<close>
theorem result_sorted_stable_renumbered:
  assumes "first_present price_cols (columns df) = Some p"
    and "first_present mktcap_cols (columns df) = Some m"
    and "first_present lianban_cols (columns df) = Some l"
    and "first_present times_cols (columns df) = Some t0"
    and "filter_stocks P df = Inr out"
  shows "sorted_wrt ordered_before (map snd (rows out))
         \<and> (\<forall>k. filter (\<lambda>r. sort_triple r = k) (map snd (rows out)) =
                 filter (\<lambda>r. sort_triple r = k)
                   (map (display p m l (count_column t0))
                      (filter (passes p m l (count_column t0))
                         (map snd (rows (prepared P df))))))
         \<and> map fst (rows out) = map int [0..<length (rows out)]"
proof (cases "frame_empty df")
  case True
  with assms(1) have "rows df = []"
    by (auto simp: frame_empty_def dest: first_present_Some)
  moreover from True assms(5) have "out = df" by (simp add: filter_stocks_def)
  ultimately show ?thesis by (simp add: rows_prepared_Nil)
next
  case False
  let ?xs = "map (display p m l (count_column t0))
               (filter (passes p m l (count_column t0)) (map snd (rows (prepared P df))))"
  let ?ys = "sort_key (row_sort_key sort_spec) ?xs"
  from filter_stocks_main [OF False assms(1-4), of P] assms(5)
  have out: "out = \<lparr>columns = display_cols, rows = zip (map int [0..<length ?xs]) ?ys\<rparr>"
    by (simp split: if_splits)
  have snd_rows: "map snd (rows out) = ?ys" by (simp add: out)
  have pass: "passes price_latest mktcap_yi lianban_count recent_half_year_times r"
    if "r \<in> set ?ys" for r
    using that by (auto simp: passes_display)
  have "sorted (map (row_sort_key sort_spec) ?ys)" by (rule sorted_sort_key)
  then have "sorted_wrt (\<lambda>r s. row_sort_key sort_spec r \<le> row_sort_key sort_spec s) ?ys"
    by (simp add: sorted_map)
  then have a: "sorted_wrt ordered_before ?ys"
  proof (rule sorted_wrt_mono_rel [rotated])
    fix r s
    assume "r \<in> set ?ys" "s \<in> set ?ys"
      and le: "row_sort_key sort_spec r \<le> row_sort_key sort_spec s"
    then obtain c d k c' d' k' where "sort_triple r = (Some c, Some d, Some k)"
      "sort_triple s = (Some c', Some d', Some k')"
      using passes_triple [OF pass] by meson
    then show "ordered_before r s" using le by (rule key_le_ordered_before)
  qed
  have b: "filter (\<lambda>r. sort_triple r = k) ?ys = filter (\<lambda>r. sort_triple r = k) ?xs" for k
    by (rule sort_key_stable_triple)
  have c: "map fst (rows out) = map int [0..<length (rows out)]"
    by (simp add: out)
  from a b c show ?thesis unfolding snd_rows by blast
qed

theorem result_sorted_stable_renumbered_witness:
  "first_present price_cols (columns sample_table) = Some price_latest
   \<and> first_present mktcap_cols (columns sample_table) = Some mktcap_total
   \<and> first_present lianban_cols (columns sample_table) = Some lianban_days
   \<and> first_present times_cols (columns sample_table) = Some zt_stat
   \<and> filter_stocks literal_coercion sample_table = Inr sample_result
   \<and> sorted_wrt ordered_before (map snd (rows sample_result))
   \<and> map fst (rows sample_result) = map int [0..<length (rows sample_result)]"
proof -
  have h1: "first_present price_cols (columns sample_table) = Some price_latest"
    by code_simp
  have h2: "first_present mktcap_cols (columns sample_table) = Some mktcap_total"
    by code_simp
  have h3: "first_present lianban_cols (columns sample_table) = Some lianban_days"
    by code_simp
  have h4: "first_present times_cols (columns sample_table) = Some zt_stat"
    by code_simp
  have h5: "filter_stocks literal_coercion sample_table = Inr sample_result"
    by code_simp
  show ?thesis
    using h1 h2 h3 h4 h5 result_sorted_stable_renumbered [OF h1 h2 h3 h4 h5]
    by simp
qed

section \<open>Cells that do not coerce\<close>

lemma to_numeric_not_str: "to_numeric P x \<noteq> CStr s"
  by (simp add: to_numeric_def split: cell.splits option.splits)



lemma rows_coerce_columns:
  "rows (coerce_columns P [Some p, Some m, Some l, Some t] d) =
     map (\<lambda>r. (fst r,
            fold (\<lambda>k r. AList.update k (to_numeric P (cell_at r k)) r) [p, m, l, t] (snd r)))
       (rows d)"
  by (simp add: coerce_columns_def set_column_def comp_def)








section \<open>Filtering a filtered table\<close>

lemma rebuild_row:
  "distinct (map fst r) \<Longrightarrow> map (\<lambda>k. (k, cell_at r k)) (map fst r) = r"
proof (induction r)
  case Nil
  show ?case by simp
next
  case (Cons kv r)
  obtain k v where kv: "kv = (k, v)" by (cases kv)
  from Cons.prems have notin: "k \<notin> set (map fst r)" and d: "distinct (map fst r)"
    by (simp_all add: kv)
  have "map (\<lambda>k'. (k', cell_at ((k, v) # r) k')) (map fst r)
        = map (\<lambda>k'. (k', cell_at r k')) (map fst r)"
    using notin by (intro map_cong) (auto simp: cell_at_def)
  with Cons.IH [OF d] show ?case by (simp add: kv cell_at_def)
qed

lemma row_is_display:
  assumes "map fst r = display_cols"
  shows "display price_latest mktcap_yi lianban_count recent_half_year_times r = r"
proof -
  have "display price_latest mktcap_yi lianban_count recent_half_year_times r
        = map (\<lambda>k. (k, cell_at r k)) display_cols"
    by (simp add: display_def display_cols_def)
  also have "\<dots> = r"
    using rebuild_row [of r] display_cols_distinct by (simp add: assms)
  finally show ?thesis .
qed

lemma to_numeric_num: "to_numeric P (CNum x) = CNum x"
  by (simp add: to_numeric_def)

lemma update_numeric_cell:
  assumes "cell_at r k = CNum x"
  shows "AList.update k (CNum x) r = r"
proof -
  from assms have "map_of r k = Some (CNum x)"
    by (auto simp: cell_at_def split: option.splits)
  then show ?thesis by (simp add: update_triv)
qed

lemma passes_numeric:
  assumes "passes p m l t r"
  shows "\<exists>x y z w. cell_at r p = CNum x \<and> cell_at r m = CNum y \<and> cell_at r l = CNum z
           \<and> cell_at r t = CNum w \<and> y < Fin 200"
  using assms
  by (auto simp: passes_def num_at_def as_num_def split: option.splits cell.splits)

lemma coerce_passing_row:
  assumes "passes p m l t r"
  shows "fold (\<lambda>k r. AList.update k (to_numeric P (cell_at r k)) r) [p, m, l, t] r = r"
proof -
  from passes_numeric [OF assms] obtain x y z w where
    "cell_at r p = CNum x" "cell_at r m = CNum y" "cell_at r l = CNum z" "cell_at r t = CNum w"
    by blast
  then show ?thesis by (simp add: update_numeric_cell to_numeric_num)
qed

lemma first_present_display:
  "first_present price_cols display_cols = Some price_latest"
  "first_present mktcap_cols display_cols = Some mktcap_yi"
  "first_present lianban_cols display_cols = Some lianban_count"
  "first_present times_cols display_cols = Some recent_half_year_times"
  "count_column recent_half_year_times = recent_half_year_times"
  by (simp_all add: first_present_def price_cols_def mktcap_cols_def lianban_cols_def
      times_cols_def display_cols_def count_column_def label_defs)

lemma settled_rows:
  assumes "settled F" and "r \<in> set (rows F)"
  shows "out_row (snd r)"
  using assms by (auto simp: settled_def list_all_iff)

lemma settled_coerce:
  assumes "settled F"
  shows "coerce_columns P [Some price_latest, Some mktcap_yi, Some lianban_count,
           Some recent_half_year_times] F = F"
proof -
  have cols: "price_latest \<in> set (columns F)" "mktcap_yi \<in> set (columns F)"
    "lianban_count \<in> set (columns F)" "recent_half_year_times \<in> set (columns F)"
    using assms by (simp_all add: settled_def display_cols_def)
  have c: "columns (coerce_columns P [Some price_latest, Some mktcap_yi, Some lianban_count,
           Some recent_half_year_times] F) = columns F"
    using cols by (rule columns_coerce_columns)
  have "(fst r, fold (\<lambda>k r. AList.update k (to_numeric P (cell_at r k)) r)
              [price_latest, mktcap_yi, lianban_count, recent_half_year_times] (snd r)) = r"
    if "r \<in> set (rows F)" for r
  proof -
    from settled_rows [OF assms that]
    have "passes price_latest mktcap_yi lianban_count recent_half_year_times (snd r)"
      by (simp add: out_row_def)
    then have "fold (\<lambda>k r. AList.update k (to_numeric P (cell_at r k)) r)
              [price_latest, mktcap_yi, lianban_count, recent_half_year_times] (snd r) = snd r"
      by (rule coerce_passing_row)
    then show ?thesis by (simp only: prod.collapse)
  qed
  then have "map (\<lambda>r. (fst r,
            fold (\<lambda>k r. AList.update k (to_numeric P (cell_at r k)) r)
              [price_latest, mktcap_yi, lianban_count, recent_half_year_times] (snd r)))
       (rows F) = rows F"
    by (intro map_idI)
  then have r: "rows (coerce_columns P [Some price_latest, Some mktcap_yi, Some lianban_count,
           Some recent_half_year_times] F) = rows F"
    by (simp only: rows_coerce_columns)
  from c r show ?thesis by (simp add: frame.equality)
qed

lemma settled_normalize:
  assumes "settled F"
  shows "normalize_mktcap (Some mktcap_yi) F = F"
proof (cases "series_max (get_column mktcap_yi F)")
  case None
  then show ?thesis by (simp add: normalize_mktcap_def)
next
  case (Some mx)
  from series_max_Some(1) [OF Some]
  obtain x where "x \<in> set (get_column mktcap_yi F)" "as_num x = Some mx"
    by (auto simp: map_filter_def)
  then obtain r where r: "r \<in> set (rows F)" and x: "as_num (cell_at (snd r) mktcap_yi) = Some mx"
    by (auto simp: get_column_def)
  from settled_rows [OF assms r] have "mx < Fin 200"
    using x by (auto simp: out_row_def passes_def num_at_def split: option.splits)
  then have "\<not> Fin 1000 < mx" by (cases mx) (auto simp: less_fl_def)
  with Some show ?thesis by (simp add: normalize_mktcap_def)
qed

lemma settled_prepared:
  assumes "settled F"
  shows "prepared P F = F"
proof -
  have cols: "columns F = display_cols" using assms by (simp add: settled_def)
  have ne: "recent_half_year_times \<noteq> zt_stat" using labels_distinct by auto
  have pt: "parse_times F (Some recent_half_year_times) = (F, Some recent_half_year_times)"
    using ne by (simp add: parse_times_def)
  show ?thesis
    by (simp add: prepared_def cols first_present_display pt prepare_def
        settled_coerce [OF assms] settled_normalize [OF assms])
qed

lemma settled_fixed:
  assumes "settled F"
  shows "filter_stocks P F = Inr F"
proof (cases "frame_empty F")
  case True
  then show ?thesis by (simp add: filter_stocks_def)
next
  case False
  have cols: "columns F = display_cols" using assms by (simp add: settled_def)
  have code: "col_code \<in> set (columns F)" "col_name \<in> set (columns F)"
    by (simp_all add: cols display_cols_def)
  let ?pass = "passes price_latest mktcap_yi lianban_count recent_half_year_times"
  let ?disp = "display price_latest mktcap_yi lianban_count recent_half_year_times"
  have all: "\<forall>r \<in> set (map snd (rows F)). ?pass r \<and> ?disp r = r"
    using settled_rows [OF assms] by (auto simp: out_row_def row_is_display)
  have flt: "filter ?pass (map snd (rows F)) = map snd (rows F)"
    using all by (simp add: filter_id_conv)
  have dsp: "map ?disp (map snd (rows F)) = map snd (rows F)"
    using all by (intro map_idI) auto
  have srt: "sort_key (row_sort_key sort_spec) (map snd (rows F)) = map snd (rows F)"
    using assms by (intro sort_key_id_if_sorted) (simp add: settled_def comp_def)
  have "map fst (rows F) = map int [0..<length (rows F)]"
    using assms by (simp add: settled_def)
  then have idx: "zip (map int [0..<length (rows F)]) (map snd (rows F)) = rows F"
    using zip_map_fst_snd [of "rows F"] by simp
  have "filter_stocks P F =
     Inr \<lparr>columns = display_cols,
          rows = zip (map int [0..<length (filter ?pass (map snd (rows (prepared P F))))])
                   (sort_key (row_sort_key sort_spec)
                      (map ?disp (filter ?pass (map snd (rows (prepared P F))))))\<rparr>"
    using filter_stocks_main [OF False, of price_latest mktcap_yi lianban_count
        recent_half_year_times P] code
    by (simp add: cols first_present_display)
  also have "\<dots> = Inr \<lparr>columns = display_cols, rows = rows F\<rparr>"
    unfolding settled_prepared [OF assms] flt dsp srt length_map idx ..
  finally show ?thesis using cols by (simp add: frame.equality)
qed


lemma main_result_settled:
  assumes "\<forall>r \<in> set xs. passes p m l t r"
  shows "settled \<lparr>columns = display_cols,
                  rows = zip (map int [0..<length xs])
                           (sort_key (row_sort_key sort_spec) (map (display p m l t) xs))\<rparr>"
proof -
  let ?ys = "sort_key (row_sort_key sort_spec) (map (display p m l t) xs)"
  let ?rows = "zip (map int [0..<length xs]) ?ys"
  have len: "length ?ys = length xs" by simp
  have sn: "map snd ?rows = ?ys" by (simp add: len)
  have fs: "map fst ?rows = map int [0..<length ?rows]" by (simp add: len)
  have "out_row r" if "r \<in> set ?ys" for r
  proof -
    from that obtain r0 where "r0 \<in> set xs" and r: "r = display p m l t r0" by auto
    with assms have "passes p m l t r0" by blast
    then show ?thesis
      by (simp add: r out_row_def passes_display) (simp add: display_def display_cols_def)
  qed
  note ok = this
  have "out_row (snd r)" if "r \<in> set ?rows" for r
  proof -
    have "snd r \<in> snd ` set ?rows" using that by (rule imageI)
    then have "snd r \<in> set (map snd ?rows)" by (simp only: set_map)
    then have "snd r \<in> set ?ys" by (simp only: sn)
    then show ?thesis by (rule ok)
  qed
  then have a: "list_all (\<lambda>r. out_row (snd r)) ?rows" unfolding list_all_iff by blast
  have "sorted (map (row_sort_key sort_spec) (map snd ?rows))"
    unfolding sn by (rule sorted_sort_key)
  then have b: "sorted (map (\<lambda>r. row_sort_key sort_spec (snd r)) ?rows)"
    unfolding map_map comp_def .
  from a b fs show ?thesis by (simp add: settled_def)
qed

lemma only_code_name_fixed:
  assumes "\<not> frame_empty df"
  shows "filter_stocks P (only_code_name df) = Inr (only_code_name df)"
proof -
  let ?F = "only_code_name df"
  have ne: "\<not> frame_empty ?F"
    using assms by (simp add: frame_empty_def only_code_name_def)
  have cols: "columns ?F = [col_code, col_name]" by (simp add: only_code_name_def)
  have none: "first_present price_cols [col_code, col_name] = None"
    by (simp add: first_present_def price_cols_def label_defs)
  have miss: "missing_fields (first_present price_cols (columns ?F))
      (first_present mktcap_cols (columns ?F)) (first_present lianban_cols (columns ?F))
      (snd (parse_times ?F (first_present times_cols (columns ?F)))) \<noteq> []"
    by (simp add: cols none missing_fields_Nil)
  have "filter_stocks P ?F = Inr (only_code_name ?F)"
    using ne _ _ miss by (rule filter_stocks_missing) (simp_all add: cols)
  moreover have "only_code_name ?F = ?F"
    using labels_distinct by (simp add: only_code_name_def cell_at_def comp_def)
  ultimately show ?thesis by simp
qed

lemma parsed_not_candidate:
  "parsed_times \<notin> set price_cols" "parsed_times \<notin> set mktcap_cols"
  "parsed_times \<notin> set lianban_cols" "parsed_times \<notin> set times_cols"
  using labels_distinct
  by (auto simp: price_cols_def mktcap_cols_def lianban_cols_def times_cols_def)

lemma first_present_cong:
  assumes "\<And>c. c \<in> set cands \<Longrightarrow> c \<in> set cols' \<longleftrightarrow> c \<in> set cols"
  shows "first_present cands cols' = first_present cands cols"
  unfolding first_present_def using assms by (intro find_cong) auto

lemma first_present_parsed:
  assumes "parsed_times \<notin> set cands"
  shows "first_present cands (columns (fst (parse_times df ct))) = first_present cands (columns df)"
  using assms
  by (intro first_present_cong) (auto simp: parse_times_def columns_set_column)

lemma set_column_parsed_idem:
  assumes "k \<noteq> c"
  shows "set_column c (\<lambda>r. g (cell_at r k)) (set_column c (\<lambda>r. g (cell_at r k)) df)
         = set_column c (\<lambda>r. g (cell_at r k)) df"
  using assms by (simp add: set_column_def comp_def cell_at_update)

lemma parse_times_idem:
  "parse_times (fst (parse_times df ct)) ct = parse_times df ct"
proof -
  have ne: "zt_stat \<noteq> parsed_times" using labels_distinct by auto
  show ?thesis
    using set_column_parsed_idem [OF ne,
        of "\<lambda>x. CNum (Fin (of_int (extract_half_year_times x)))" df]
    by (simp add: parse_times_def columns_set_column)
qed

lemma parsed_fixed:
  assumes ne: "\<not> frame_empty df"
    and pt: "parse_times df (first_present times_cols (columns df)) = (data, ct)"
    and miss: "missing_fields (first_present price_cols (columns df))
                 (first_present mktcap_cols (columns df))
                 (first_present lianban_cols (columns df)) ct \<noteq> []"
    and nocode: "\<not> list_all (\<lambda>c. c \<in> set (columns data)) [col_code, col_name]"
  shows "filter_stocks P data = Inr data"
proof -
  have data: "data = fst (parse_times df (first_present times_cols (columns df)))"
    using pt by simp
  have "map fst (rows data) = map fst (rows df)"
    unfolding data by (rule index_parse_times)
  then have r: "rows data \<noteq> []" using ne by (auto simp: frame_empty_def)
  have "set (columns df) \<subseteq> set (columns data)"
    unfolding data by (rule columns_parsed_subset)
  then have c: "columns data \<noteq> []" using ne by (auto simp: frame_empty_def)
  from r c have ne': "\<not> frame_empty data" by (simp add: frame_empty_def)
  have fp: "first_present price_cols (columns data) = first_present price_cols (columns df)"
    "first_present mktcap_cols (columns data) = first_present mktcap_cols (columns df)"
    "first_present lianban_cols (columns data) = first_present lianban_cols (columns df)"
    "first_present times_cols (columns data) = first_present times_cols (columns df)"
    unfolding data by (simp_all add: first_present_parsed parsed_not_candidate)
  have "parse_times (fst (data, ct)) (first_present times_cols (columns df)) = (data, ct)"
    using parse_times_idem [of df "first_present times_cols (columns df)"] unfolding pt .
  then have pt': "parse_times data (first_present times_cols (columns df)) = (data, ct)"
    by simp
  from nocode have nc: "(col_code \<in> set (columns data) \<and> col_name \<in> set (columns data)) = False"
    by simp
  show ?thesis
    using ne' miss by (simp add: filter_stocks_def fp pt' nc Let_def)
qed

text \<open>
  Claim C6. \<open>filter_stocks\<close> is idempotent on its own output: for every table, applying
  \<open>filter_stocks\<close> to the table it returned yields that same table, with the same
  columns, the same rows and index labels, in the same order.
\<close>
theorem filter_stocks_idempotent:
  assumes "filter_stocks P df = Inr out"
  shows "filter_stocks P out = Inr out"
proof (cases "frame_empty df")
  case True
  with assms have "out = df" by (simp add: filter_stocks_def)
  with assms show ?thesis by simp
next
  case ne: False
  obtain data ct where pt: "parse_times df (first_present times_cols (columns df)) = (data, ct)"
    by (cases "parse_times df (first_present times_cols (columns df))")
  show ?thesis
  proof (cases "missing_fields (first_present price_cols (columns df))
                 (first_present mktcap_cols (columns df))
                 (first_present lianban_cols (columns df)) ct = []")
    case False
    show ?thesis
    proof (cases "list_all (\<lambda>c. c \<in> set (columns data)) [col_code, col_name]")
      case True
      then have "col_code \<in> set (columns df)" "col_name \<in> set (columns df)"
        using pt parsed_not_code
        by (auto simp: parse_times_def columns_set_column split: if_splits)
      then have "filter_stocks P df = Inr (only_code_name df)"
        using ne False pt by (intro filter_stocks_missing) simp_all
      with assms have "out = only_code_name df" by simp
      then show ?thesis using only_code_name_fixed [OF ne] by simp
    next
      case nocode: False
      then have nc: "(col_code \<in> set (columns data) \<and> col_name \<in> set (columns data)) = False"
        by simp
      have "filter_stocks P df = Inr data"
        using ne False by (simp add: filter_stocks_def pt nc)
      with assms have "out = data" by simp
      then show ?thesis using parsed_fixed [OF ne pt False nocode] by simp
    qed
  next
    case True
    then obtain p m l t where p: "first_present price_cols (columns df) = Some p"
      and m: "first_present mktcap_cols (columns df) = Some m"
      and l: "first_present lianban_cols (columns df) = Some l" and ct: "ct = Some t"
      by (auto simp: missing_fields_Nil)
    from ct pt obtain t0 where t0: "first_present times_cols (columns df) = Some t0"
      by (cases "first_present times_cols (columns df)") (auto simp: parse_times_def)
    let ?xs = "filter (passes p m l (count_column t0)) (map snd (rows (prepared P df)))"
    from filter_stocks_main [OF ne p m l t0, of P] assms
    have out: "out = \<lparr>columns = display_cols,
                 rows = zip (map int [0..<length ?xs])
                          (sort_key (row_sort_key sort_spec)
                             (map (display p m l (count_column t0)) ?xs))\<rparr>"
      by (simp split: if_splits)
    have "settled out"
      unfolding out by (rule main_result_settled) simp
    then show ?thesis by (rule settled_fixed)
  qed
qed

theorem filter_stocks_idempotent_witness:
  "filter_stocks literal_coercion sample_table = Inr sample_result
   \<and> filter_stocks literal_coercion sample_result = Inr sample_result"
proof -
  have h: "filter_stocks literal_coercion sample_table = Inr sample_result" by code_simp
  show ?thesis using h filter_stocks_idempotent [OF h] by simp
qed

section \<open>A cell that does not read as a number\<close>







section \<open>The composite-count parser\<close>

subsection \<open>Slash-separated parts\<close>

lemma split_on_length: "1 \<le> length (split_on sep s)"
  by (induction s) (auto split: list.splits)

lemma split_on_slash: "sep \<in> set s \<Longrightarrow> 2 \<le> length (split_on sep s)"
proof (induction s)
  case Nil
  then show ?case by simp
next
  case (Cons c cs)
  show ?case
  proof (cases "c = sep")
    case True
    with split_on_length [of sep cs] show ?thesis by simp
  next
    case False
    with Cons have "2 \<le> length (split_on sep cs)" by simp
    with False show ?thesis by (auto split: list.splits)
  qed
qed

lemma split_on_not_Nil: "split_on sep s \<noteq> []"
  using split_on_length [of sep s] by auto

lemma split_on_hd: "hd (split_on sep s) = takeWhile (\<lambda>c. c \<noteq> sep) s"
  using split_on_not_Nil by (induction s) (auto split: list.splits)

lemma split_on_tl:
  "sep \<in> set s \<Longrightarrow>
   tl (split_on sep s) = split_on sep (tl (dropWhile (\<lambda>c. c \<noteq> sep) s))"
  by (induction s) (auto split: list.splits)

lemma split_on_second:
  assumes "sep \<in> set s"
  shows "split_on sep s ! Suc 0
         = takeWhile (\<lambda>c. c \<noteq> sep) (tl (dropWhile (\<lambda>c. c \<noteq> sep) s))"
proof -
  from split_on_slash [OF assms] obtain p q ps where ps: "split_on sep s = p # q # ps"
    by (cases "split_on sep s"; cases "tl (split_on sep s)") auto
  then have "q = hd (tl (split_on sep s))" by simp
  also have "\<dots> = hd (split_on sep (tl (dropWhile (\<lambda>c. c \<noteq> sep) s)))"
    by (simp add: split_on_tl [OF assms])
  also have "\<dots> = takeWhile (\<lambda>c. c \<noteq> sep) (tl (dropWhile (\<lambda>c. c \<noteq> sep) s))"
    by (rule split_on_hd)
  finally show ?thesis by (simp add: ps)
qed

lemma second_part_append:
  assumes "CHR ''/'' \<notin> set a" and "CHR ''/'' \<notin> set p"
  shows "second_part (a @ ''/'' @ p) = Some p"
    and "second_part (a @ ''/'' @ p @ ''/'' @ b) = Some p"
proof -
  have d: "dropWhile (\<lambda>c. c \<noteq> CHR ''/'') (a @ CHR ''/'' # r) = CHR ''/'' # r" for r
    using assms(1) by (induction a) auto
  have t1: "takeWhile (\<lambda>c. c \<noteq> CHR ''/'') p = p"
    using assms(2) by (induction p) auto
  have t2: "takeWhile (\<lambda>c. c \<noteq> CHR ''/'') (p @ CHR ''/'' # b) = p"
    using assms(2) by (induction p) auto
  show "second_part (a @ ''/'' @ p) = Some p"
    using d [of p] by (simp add: second_part_def t1)
  show "second_part (a @ ''/'' @ p @ ''/'' @ b) = Some p"
    using d [of "p @ CHR ''/'' # b"] by (simp add: second_part_def t2)
qed

subsection \<open>The parser and its specification\<close>

lemma truncate_integer_part: "truncate_rat q = integer_part q"
  by (auto simp: truncate_rat_def integer_part_def ceiling_def abs_if)

lemma extract_composite_count: "extract_half_year_times x = composite_count x"
proof (cases x)
  case CNull
  then show ?thesis
    by (simp add: extract_half_year_times_def isna_def composite_count_def)
next
  case (CStr s)
  show ?thesis
  proof (cases "CHR ''/'' \<in> set s")
    case True
    then have len: "2 \<le> length (split_on (CHR ''/'') s)" by (rule split_on_slash)
    with True CStr show ?thesis
      by (simp add: extract_half_year_times_def isna_def composite_count_def
          try_extract_def second_part_def split_on_second)
  next
    case False
    with CStr show ?thesis
      by (auto simp: extract_half_year_times_def isna_def composite_count_def
          try_extract_def second_part_def integer_reading_def float_of_cell_def
          int_of_float_def truncate_integer_part
          split: option.splits pyfloat.splits fl.splits)
  qed
next
  case (CNum v)
  then show ?thesis
    by (auto simp: extract_half_year_times_def isna_def composite_count_def
        try_extract_def integer_reading_def float_of_cell_def int_of_float_def
        truncate_integer_part split: option.splits fl.splits)
qed

subsection \<open>Decimal numerals\<close>

lemma of_char_digit: "d < 10 \<Longrightarrow> (of_char (char_of (48 + d :: nat)) :: nat) = 48 + d"
  by simp

lemma is_digit_char_of: "d < 10 \<Longrightarrow> is_digit (char_of (48 + d :: nat))"
  by (simp add: is_digit_def)

lemma digit_val_char_of: "d < 10 \<Longrightarrow> digit_val (char_of (48 + d :: nat)) = int d"
  by (simp add: digit_val_def)

lemma decimal_digits: "list_all is_digit (decimal n)"
proof (induction n rule: decimal.induct)
  case (1 n)
  show ?case
  proof (cases "n < 10")
    case True
    then show ?thesis by (subst decimal.simps) (simp add: is_digit_char_of)
  next
    case False
    with 1 show ?thesis by (subst decimal.simps) (simp add: is_digit_char_of)
  qed
qed

lemma decimal_not_Nil: "decimal n \<noteq> []"
  by (subst decimal.simps) simp

lemma decimal_value: "foldl digit_step 0 (decimal n) = int n"
proof (induction n rule: decimal.induct)
  case (1 n)
  show ?case
  proof (cases "n < 10")
    case True
    then show ?thesis by (subst decimal.simps) (simp add: digit_val_char_of)
  next
    case False
    with 1 have "foldl digit_step 0 (decimal (n div 10)) = int (n div 10)" by simp
    with False show ?thesis
      by (subst decimal.simps) (simp add: digit_val_char_of zdiv_int zmod_int)
  qed
qed

lemma digits_acc_digits:
  "list_all is_digit s \<Longrightarrow> digits_acc v n s = (foldl digit_step v s, n + length s, [])"
  by (induction v n s rule: digits_acc.induct) auto

lemma digitpart_digits:
  assumes "list_all is_digit s" and "s \<noteq> []"
  shows "digitpart s = Some (foldl digit_step 0 s, length s, [])"
  using assms by (cases s) (simp_all add: digitpart_def digits_acc_digits)

lemma digit_not_space: "is_digit c \<Longrightarrow> \<not> is_space c"
  by (auto simp: is_digit_def is_space_def)

lemma strip_id:
  assumes "s \<noteq> []" and "\<not> is_space (hd s)" and "\<not> is_space (last s)"
  shows "strip s = s"
proof -
  from assms have 1: "dropWhile is_space s = s" by (cases s) auto
  from assms have "rev s \<noteq> []" "\<not> is_space (hd (rev s))" by (simp_all add: hd_rev)
  then have 2: "dropWhile is_space (rev s) = rev s" by (cases "rev s") auto
  show ?thesis by (simp add: strip_def 1 2)
qed

lemma digits_hd_last:
  assumes "list_all is_digit s" and "s \<noteq> []"
  shows "is_digit (hd s)" and "is_digit (last s)"
  using assms by (auto simp: list_all_iff)

lemma digit_ascii: "is_digit c \<Longrightarrow> (of_char c :: nat) < 128"
  by (simp add: is_digit_def)

lemma to_ascii_digits: "list_all is_digit s \<Longrightarrow> to_ascii s = s"
  by (auto simp: to_ascii_def list_all_iff dest: digit_ascii)

lemma read_sign_digit: "s \<noteq> [] \<Longrightarrow> is_digit (hd s) \<Longrightarrow> read_sign s = (False, s)"
  by (cases s) (auto simp: read_sign_def is_digit_def)

lemma int_of_str_digits:
  assumes "list_all is_digit s" and "s \<noteq> []"
  shows "int_of_str s = (if 4300 < length s then None else Some (foldl digit_step 0 s))"
proof -
  from digits_hd_last [OF assms] have "strip s = s"
    using assms(2) by (intro strip_id) (simp_all add: digit_not_space)
  moreover have "read_sign s = (False, s)"
    using assms(2) digits_hd_last(1) [OF assms] by (rule read_sign_digit)
  ultimately show ?thesis
    by (simp add: int_of_str_def to_ascii_digits [OF assms(1)] digitpart_digits [OF assms])
qed

lemma int_of_str_decimal:
  "length (decimal n) \<le> 4300 \<Longrightarrow> int_of_str (decimal n) = Some (int n)"
  by (simp add: int_of_str_digits [OF decimal_digits decimal_not_Nil] decimal_value)

lemma decimal_no_slash: "CHR ''/'' \<notin> set (decimal n)"
proof
  assume "CHR ''/'' \<in> set (decimal n)"
  with decimal_digits [of n] have "is_digit (CHR ''/'')" by (auto simp: list_all_iff)
  then show False by (simp add: is_digit_def)
qed

lemma extract_slash_decimal:
  assumes "CHR ''/'' \<notin> set a" and "length (decimal n) \<le> 4300"
  shows "extract_half_year_times (CStr (a @ ''/'' @ decimal n)) = int n"
    and "extract_half_year_times (CStr (a @ ''/'' @ decimal n @ ''/'' @ b)) = int n"
  using second_part_append [OF assms(1) decimal_no_slash, of n] assms(2)
  by (simp_all add: extract_composite_count composite_count_def int_of_str_decimal)

subsection \<open>Rounding of integers\<close>

lemma floor_log2_bounds:
  "1 \<le> n \<Longrightarrow> 0 \<le> floor_log2 n \<and> 2 ^ nat (floor_log2 n) \<le> n \<and> n < 2 * 2 ^ nat (floor_log2 n)"
proof (induction n rule: floor_log2.induct)
  case (1 n)
  show ?case
  proof (cases "n < 2")
    case True
    with 1(2) show ?thesis by (subst (1 2 3) floor_log2.simps) simp
  next
    case False
    then have "1 \<le> n div 2" by simp
    with 1(1) False have ih: "0 \<le> floor_log2 (n div 2)"
      "2 ^ nat (floor_log2 (n div 2)) \<le> n div 2"
      "n div 2 < 2 * 2 ^ nat (floor_log2 (n div 2))" by simp_all
    have eq: "floor_log2 n = 1 + floor_log2 (n div 2)"
      using False by (subst floor_log2.simps) simp
    have p: "(2::int) ^ nat (1 + floor_log2 (n div 2)) = 2 * 2 ^ nat (floor_log2 (n div 2))"
      using ih(1) by (simp add: nat_add_distrib)
    from ih show ?thesis unfolding eq p by auto
  qed
qed

lemma floor_log2_one: "floor_log2 1 = 0"
  by (subst floor_log2.simps) simp

lemma ilog2_int:
  assumes "1 \<le> n"
  shows "ilog2 (of_int n) = floor_log2 n"
proof -
  from floor_log2_bounds [OF assms] have b: "0 \<le> floor_log2 n" "2 ^ nat (floor_log2 n) \<le> n"
    by simp_all
  have "(2::rat) ^ nat (floor_log2 n) = of_int (2 ^ nat (floor_log2 n))" by simp
  also have "\<dots> \<le> of_int n" using b(2) by (simp only: of_int_le_iff)
  finally have "pow2 (floor_log2 n) \<le> of_int n" using b(1) by (simp add: pow2_def)
  then show ?thesis by (simp add: ilog2_def floor_log2_one)
qed

lemma round_half_even_int: "round_half_even (of_int j) = j"
  by (simp add: round_half_even_def)

lemma round64_pos:
  assumes "1 \<le> n" and "n < 2 ^ 53"
  shows "ilog2 (of_int n) \<le> 52"
    and "round_half_even (of_int n / pow2 (ilog2 (of_int n) - 52))
         = n * 2 ^ nat (52 - ilog2 (of_int n))"
    and "of_int (n * 2 ^ nat (52 - ilog2 (of_int n))) * pow2 (ilog2 (of_int n) - 52)
         = (of_int n :: rat)"
proof -
  let ?e = "floor_log2 n"
  from floor_log2_bounds [OF assms(1)] have b: "0 \<le> ?e" "2 ^ nat ?e \<le> n" by simp_all
  have "(2::int) ^ nat ?e < 2 ^ 53" using b(2) assms(2) by simp
  then have "nat ?e < 53"
    using power_less_imp_less_exp [of "2::int" "nat ?e" 53] by simp
  then have e: "?e \<le> 52" by simp
  then show "ilog2 (of_int n) \<le> 52" by (simp add: ilog2_int [OF assms(1)])
  have p: "pow2 (?e - 52) = 1 / 2 ^ nat (52 - ?e)"
    using e by (auto simp: pow2_def)
  have "of_int n / pow2 (?e - 52) = (of_int (n * 2 ^ nat (52 - ?e)) :: rat)"
    by (simp add: p)
  then show "round_half_even (of_int n / pow2 (ilog2 (of_int n) - 52))
         = n * 2 ^ nat (52 - ilog2 (of_int n))"
    unfolding ilog2_int [OF assms(1)] by (simp only: round_half_even_int)
  show "of_int (n * 2 ^ nat (52 - ilog2 (of_int n))) * pow2 (ilog2 (of_int n) - 52)
         = (of_int n :: rat)"
    unfolding ilog2_int [OF assms(1)] by (simp add: p)
qed

lemma round64_int:
  assumes "\<bar>z\<bar> < 2 ^ 53"
  shows "round64 (of_int z) = Fin (of_int z)"
proof (cases "z = 0")
  case True
  then show ?thesis by (simp add: round64_def)
next
  case False
  let ?n = "\<bar>z\<bar>"
  have n: "1 \<le> ?n" using False by simp
  have a: "\<bar>of_int z :: rat\<bar> = of_int ?n" by simp
  note r = round64_pos [OF n assms]
  have k: "max (ilog2 (of_int ?n) - 52) (- 1074) = ilog2 (of_int ?n) - 52"
  proof -
    from floor_log2_bounds [OF n] have "0 \<le> floor_log2 ?n" by simp
    then show ?thesis unfolding ilog2_int [OF n] by linarith
  qed
  have nk: "\<not> 971 < ilog2 (of_int ?n) - 52" "ilog2 (of_int ?n) - 52 \<noteq> 971"
    using r(1) by simp_all
  have "round64 (of_int z)
        = Fin ((if (of_int z :: rat) < 0 then - 1 else 1)
               * of_int (?n * 2 ^ nat (52 - ilog2 (of_int ?n)))
               * pow2 (ilog2 (of_int ?n) - 52))"
    using False nk unfolding round64_def a k Let_def r(2) by simp
  also have "\<dots> = Fin ((if (of_int z :: rat) < 0 then - 1 else 1) * of_int ?n)"
    using r(3) by (simp only: mult.assoc)
  also have "\<dots> = Fin (of_int z)" by (simp add: abs_if)
  finally show ?thesis .
qed

lemma integer_part_int: "integer_part (of_int z) = z"
proof -
  have "\<bar>of_int z :: rat\<bar> = of_int \<bar>z\<bar>" by simp
  then have "\<lfloor>\<bar>of_int z :: rat\<bar>\<rfloor> = \<bar>z\<bar>" by (simp only: floor_of_int)
  then show ?thesis by (simp add: integer_part_def abs_if)
qed

lemma integer_part_nat: "integer_part (of_nat n) = int n"
  using integer_part_int [of "int n"] by simp

lemma extract_int_number:
  "\<bar>z\<bar> < 2 ^ 53 \<Longrightarrow> extract_half_year_times (CNum (Fin (of_int z))) = z"
  by (simp add: extract_composite_count composite_count_def integer_reading_def
      to_float_def round64_int integer_part_int)

subsection \<open>Plain numerals as floats\<close>

lemma lower_ascii_digit: "is_digit c \<Longrightarrow> lower_ascii c = c"
  by (simp add: lower_ascii_def is_digit_def)

lemma digits_not_word:
  assumes "list_all is_digit s"
  shows "map lower_ascii s \<noteq> ''inf''" "map lower_ascii s \<noteq> ''infinity''"
    "map lower_ascii s \<noteq> ''nan''"
proof -
  have m: "map lower_ascii s = s"
    using assms by (induction s) (simp_all add: lower_ascii_digit)
  have "\<not> is_digit (CHR ''i'')" "\<not> is_digit (CHR ''n'')" by (simp_all add: is_digit_def)
  with assms show "map lower_ascii s \<noteq> ''inf''" "map lower_ascii s \<noteq> ''infinity''"
    "map lower_ascii s \<noteq> ''nan''" unfolding m by auto
qed

lemma float_of_str_digits:
  assumes "list_all is_digit s" and "s \<noteq> []"
  shows "float_of_str s = Some (FVal (round64 (of_int (foldl digit_step 0 s))))"
proof -
  from digits_hd_last [OF assms] have "strip s = s"
    using assms(2) by (intro strip_id) (simp_all add: digit_not_space)
  moreover have "read_sign s = (False, s)"
    using assms(2) digits_hd_last(1) [OF assms] by (rule read_sign_digit)
  moreover have "read_number s = Some (foldl digit_step 0 s, 0, [])"
    by (simp add: read_number_def digitpart_digits [OF assms])
  moreover have "read_exponent [] = Some 0" by (simp add: read_exponent_def)
  ultimately show ?thesis
    by (simp add: float_of_str_def to_ascii_digits [OF assms(1)] digits_not_word [OF assms(1)]
        pow10_def)
qed

lemma extract_decimal:
  assumes "n < 2 ^ 53"
  shows "extract_half_year_times (CStr (decimal n)) = int n"
proof -
  have "\<bar>int n\<bar> < 2 ^ 53" using assms by (simp add: of_nat_less_iff [of n "2 ^ 53", where ?'a = int, simplified])
  then have "round64 (of_int (int n)) = Fin (of_int (int n))" by (rule round64_int)
  then have "float_of_str (decimal n) = Some (FVal (Fin (of_int (int n))))"
    by (simp add: float_of_str_digits [OF decimal_digits decimal_not_Nil] decimal_value)
  then show ?thesis
    using decimal_no_slash [of n]
    by (simp add: extract_composite_count composite_count_def second_part_def
        integer_reading_def integer_part_nat)
qed

subsection \<open>What a literal is made of\<close>

lemma digit_not_underscore: "is_digit c \<Longrightarrow> c \<noteq> CHR ''_''"
  by (auto simp: is_digit_def)

lemma digits_acc_value:
  "digits_acc v n s = (v', n', []) \<Longrightarrow>
   list_all is_digit (filter (\<lambda>c. c \<noteq> CHR ''_'') s)
   \<and> v' = foldl digit_step v (filter (\<lambda>c. c \<noteq> CHR ''_'') s)
   \<and> n' = n + length (filter (\<lambda>c. c \<noteq> CHR ''_'') s)"
proof (induction v n s rule: digits_acc.induct)
  case (1 v n)
  then show ?case by simp
next
  case (2 v n c)
  then show ?case by (auto simp: digit_not_underscore split: if_splits)
next
  case (3 v n c d ds)
  show ?case
  proof (cases "is_digit c")
    case True
    with 3(1) 3(3) show ?thesis by (simp add: digit_not_underscore)
  next
    case False
    with 3(3) have c: "c = CHR ''_''" and d: "is_digit d" by (auto split: if_splits)
    with False 3(2) 3(3) show ?thesis by (simp add: digit_not_underscore)
  qed
qed

lemma digitpart_value:
  assumes "digitpart s = Some (v, n, [])"
  shows "list_all is_digit (filter (\<lambda>c. c \<noteq> CHR ''_'') s)
         \<and> v = foldl digit_step 0 (filter (\<lambda>c. c \<noteq> CHR ''_'') s)
         \<and> n = length (filter (\<lambda>c. c \<noteq> CHR ''_'') s) \<and> 0 < n"
proof (cases s)
  case Nil
  with assms show ?thesis by (simp add: digitpart_def)
next
  case (Cons c cs)
  with assms have c: "is_digit c" and a: "digits_acc (digit_val c) 1 cs = (v, n, [])"
    by (auto simp: digitpart_def split: if_splits)
  from digits_acc_value [OF a] c Cons show ?thesis
    by (simp add: digit_not_underscore)
qed

lemma int_of_str_value:
  assumes "int_of_str s = Some v"
  shows "(let (neg, u) = read_sign (strip (to_ascii s));
              d = filter (\<lambda>c. c \<noteq> CHR ''_'') u
          in d \<noteq> [] \<and> list_all is_digit d \<and> length d \<le> 4300
             \<and> v = (if neg then - foldl digit_step 0 d else foldl digit_step 0 d))"
proof -
  obtain neg u where ru: "read_sign (strip (to_ascii s)) = (neg, u)" by force
  with assms obtain w n where dp: "digitpart u = Some (w, n, [])"
    and n: "\<not> 4300 < n" and v: "v = (if neg then - w else w)"
    by (auto simp: int_of_str_def split: option.splits list.splits if_splits)
  from digitpart_value [OF dp] n v show ?thesis
    by (auto simp: ru)
qed

text \<open>The characters that a literal reads.\<close>

lemma digits_acc_consumed:
  "digits_acc v n s = (v', n', r) \<Longrightarrow>
   \<exists>p. s = p @ r \<and> list_all (\<lambda>c. is_digit c \<or> c = CHR ''_'') p"
proof (induction v n s rule: digits_acc.induct)
  case (1 v n)
  then show ?case by simp
next
  case (2 v n c)
  then show ?case by (auto split: if_splits)
next
  case (3 v n c d ds)
  show ?case
  proof (cases "is_digit c")
    case True
    with 3(1) 3(3) obtain p where "d # ds = p @ r"
      "list_all (\<lambda>c. is_digit c \<or> c = CHR ''_'') p" by auto
    with True have "c # d # ds = (c # p) @ r \<and> list_all (\<lambda>c. is_digit c \<or> c = CHR ''_'') (c # p)"
      by simp
    then show ?thesis by blast
  next
    case False
    show ?thesis
    proof (cases "c = CHR ''_'' \<and> is_digit d")
      case True
      with False 3(2) 3(3) obtain p where "ds = p @ r"
        "list_all (\<lambda>c. is_digit c \<or> c = CHR ''_'') p" by auto
      with True have "c # d # ds = (c # d # p) @ r
          \<and> list_all (\<lambda>c. is_digit c \<or> c = CHR ''_'') (c # d # p)" by simp
      then show ?thesis by blast
    next
      case no: False
      with False 3(3) have "r = c # d # ds" by auto
      then have "c # d # ds = [] @ r \<and> list_all (\<lambda>c. is_digit c \<or> c = CHR ''_'') []" by simp
      then show ?thesis by blast
    qed
  qed
qed

lemma digitpart_consumed:
  assumes "digitpart s = Some (v, n, r)"
  shows "\<exists>p. s = p @ r \<and> list_all (\<lambda>c. is_digit c \<or> c = CHR ''_'') p"
proof (cases s)
  case Nil
  with assms show ?thesis by (simp add: digitpart_def)
next
  case (Cons c cs)
  with assms have c: "is_digit c" and a: "digits_acc (digit_val c) 1 cs = (v, n, r)"
    by (auto simp: digitpart_def split: if_splits)
  from digits_acc_consumed [OF a] obtain p where "cs = p @ r"
    "list_all (\<lambda>c. is_digit c \<or> c = CHR ''_'') p" by auto
  with c Cons have "s = (c # p) @ r \<and> list_all (\<lambda>c. is_digit c \<or> c = CHR ''_'') (c # p)"
    by simp
  then show ?thesis by blast
qed

lemma float_char_cases:
  "is_digit c \<Longrightarrow> float_char c" "is_space c \<Longrightarrow> float_char c"
  "c = CHR ''_'' \<Longrightarrow> float_char c" "c = CHR ''.'' \<Longrightarrow> float_char c"
  "c = CHR ''e'' \<Longrightarrow> float_char c" "c = CHR ''E'' \<Longrightarrow> float_char c"
  "c = CHR ''+'' \<Longrightarrow> float_char c" "c = CHR ''-'' \<Longrightarrow> float_char c"
  by (simp_all add: float_char_def)

lemma digitpart_float_chars:
  assumes "digitpart s = Some (v, n, r)"
  shows "\<exists>p. s = p @ r \<and> list_all float_char p"
proof -
  from digitpart_consumed [OF assms] obtain p where p: "s = p @ r"
    "list_all (\<lambda>c. is_digit c \<or> c = CHR ''_'') p" by auto
  from p(2) have "list_all float_char p"
    by (auto simp: list_all_iff float_char_cases)
  with p(1) show ?thesis by blast
qed

lemma read_number_consumed:
  assumes "read_number u = Some (m, sc, r)"
  shows "\<exists>p. u = p @ r \<and> list_all float_char p"
proof (cases "digitpart u")
  case None
  with assms obtain r2 fp nf where u: "u = CHR ''.'' # r2"
    and d: "digitpart r2 = Some (fp, nf, r)"
    by (auto simp: read_number_def split: list.splits if_splits option.splits)
  from digitpart_float_chars [OF d] obtain p where "r2 = p @ r" "list_all float_char p" by auto
  with u have "u = (CHR ''.'' # p) @ r \<and> list_all float_char (CHR ''.'' # p)"
    by (simp add: float_char_cases)
  then show ?thesis by blast
next
  case (Some t)
  then obtain ip n r1 where d1: "digitpart u = Some (ip, n, r1)" by (cases t) auto
  from digitpart_float_chars [OF d1] obtain p1 where p1: "u = p1 @ r1" "list_all float_char p1"
    by auto
  show ?thesis
  proof (cases r1)
    case Nil
    with assms d1 have "r = []" by (simp add: read_number_def)
    with p1 Nil show ?thesis by auto
  next
    case (Cons c r2)
    show ?thesis
    proof (cases "c = CHR ''.''")
      case False
      with assms d1 Cons have "r = r1" by (simp add: read_number_def)
      with p1 show ?thesis by auto
    next
      case True
      show ?thesis
      proof (cases "digitpart r2")
        case None
        with assms d1 Cons True have "r = r2" by (simp add: read_number_def)
        with p1 Cons True have "u = (p1 @ ''.'') @ r \<and> list_all float_char (p1 @ ''.'')"
          by (simp add: float_char_cases)
        then show ?thesis by blast
      next
        case (Some t2)
        then obtain fp nf r3 where d2: "digitpart r2 = Some (fp, nf, r3)" by (cases t2) auto
        with assms d1 Cons True have r: "r = r3" by (simp add: read_number_def)
        from digitpart_float_chars [OF d2] obtain p2 where "r2 = p2 @ r3"
          "list_all float_char p2" by auto
        with p1 Cons True r
        have "u = (p1 @ ''.'' @ p2) @ r \<and> list_all float_char (p1 @ ''.'' @ p2)"
          by (simp add: float_char_cases)
        then show ?thesis by blast
      qed
    qed
  qed
qed

lemma read_sign_cases:
  assumes "read_sign s = (neg, u)"
  shows "s = u \<or> s = CHR ''-'' # u \<or> s = CHR ''+'' # u"
  using assms by (auto simp: read_sign_def split: list.splits if_splits)

lemma read_sign_float_chars:
  assumes "read_sign s = (neg, u)" and "list_all float_char u"
  shows "list_all float_char s"
  using read_sign_cases [OF assms(1)] assms(2) by (auto simp: float_char_cases)

lemma read_exponent_chars:
  assumes "read_exponent r = Some ex"
  shows "list_all float_char r"
proof (cases r)
  case Nil
  then show ?thesis by simp
next
  case (Cons c cs)
  obtain neg u where ru: "read_sign cs = (neg, u)" by force
  from assms Cons ru have c: "c = CHR ''e'' \<or> c = CHR ''E''"
    and "\<exists>v n. digitpart u = Some (v, n, [])"
    by (auto simp: read_exponent_def split: if_splits option.splits list.splits)
  then obtain v n where "digitpart u = Some (v, n, [])" by auto
  from digitpart_float_chars [OF this] have "list_all float_char u" by auto
  from read_sign_float_chars [OF ru this] c Cons show ?thesis
    by (auto simp: float_char_cases)
qed

lemma strip_decompose:
  "\<exists>a b. s = a @ strip s @ b \<and> list_all is_space a \<and> list_all is_space b"
proof -
  let ?x = "dropWhile is_space s"
  have 1: "s = takeWhile is_space s @ ?x" by simp
  have "rev (rev ?x) = rev (takeWhile is_space (rev ?x) @ dropWhile is_space (rev ?x))"
    by (simp only: takeWhile_dropWhile_id)
  then have "?x = rev (dropWhile is_space (rev ?x)) @ rev (takeWhile is_space (rev ?x))"
    by (simp only: rev_append rev_rev_ident)
  then have 2: "?x = strip s @ rev (takeWhile is_space (rev ?x))"
    by (simp only: strip_def)
  have a: "list_all is_space (takeWhile is_space s)"
    by (auto simp: list_all_iff dest: set_takeWhileD)
  have b: "list_all is_space (rev (takeWhile is_space (rev ?x)))"
    by (auto simp: list_all_iff dest: set_takeWhileD)
  from 1 2 have "s = takeWhile is_space s @ strip s @ rev (takeWhile is_space (rev ?x))"
    by simp
  with a b show ?thesis by blast
qed

lemma strip_float_chars:
  assumes "list_all float_char (strip s)"
  shows "list_all float_char s"
proof -
  from strip_decompose [of s] obtain a b where s: "s = a @ strip s @ b"
    and ab: "list_all is_space a" "list_all is_space b" by auto
  from ab have "list_all float_char a" "list_all float_char b"
    by (auto simp: list_all_iff float_char_cases)
  with assms have "list_all float_char (a @ strip s @ b)" by simp
  with s show ?thesis by simp
qed

lemma word_float_chars:
  assumes "map lower_ascii u = ''inf'' \<or> map lower_ascii u = ''infinity''
           \<or> map lower_ascii u = ''nan''"
  shows "list_all float_char u"
proof -
  have "lower_ascii c \<in> set ''infatyn''" if "c \<in> set u" for c
  proof -
    from that have "lower_ascii c \<in> set (map lower_ascii u)" by simp
    with assms show ?thesis by auto
  qed
  then show ?thesis by (simp add: list_all_iff float_char_def)
qed

lemma float_of_str_chars:
  assumes "float_of_str s = Some f"
  shows "list_all float_char (to_ascii s)"
proof -
  obtain neg u where ru: "read_sign (strip (to_ascii s)) = (neg, u)" by force
  have "list_all float_char u"
  proof (cases "map lower_ascii u = ''inf'' \<or> map lower_ascii u = ''infinity''
           \<or> map lower_ascii u = ''nan''")
    case True
    then show ?thesis by (rule word_float_chars)
  next
    case False
    with assms ru obtain m sc r ex where rn: "read_number u = Some (m, sc, r)"
      and re: "read_exponent r = Some ex"
      by (auto simp: float_of_str_def split: option.splits)
    from read_number_consumed [OF rn] obtain p where "u = p @ r" "list_all float_char p"
      by auto
    with read_exponent_chars [OF re] show ?thesis by simp
  qed
  with ru have "list_all float_char (strip (to_ascii s))" by (rule read_sign_float_chars)
  then show ?thesis by (rule strip_float_chars)
qed

lemma to_ascii_plain: "list_all (\<lambda>b. (of_char b :: nat) < 128) s \<Longrightarrow> to_ascii s = s"
  by (simp add: to_ascii_def)

lemma extract_not_a_number:
  assumes "CHR ''/'' \<notin> set s" and "\<not> list_all float_char (to_ascii s)"
  shows "extract_half_year_times (CStr s) = 0"
proof -
  from assms(2) float_of_str_chars [of s] have "float_of_str s = None"
    by (cases "float_of_str s") auto
  with assms(1) show ?thesis
    by (simp add: extract_composite_count composite_count_def second_part_def
        integer_reading_def)
qed

subsection \<open>Examples\<close>

lemma ex_53: "extract_value (Scalar (CStr ''5/3'')) = Inr 3" by code_simp
lemma ex_7: "extract_value (Scalar (CStr ''7'')) = Inr 7" by code_simp
lemma ex_null: "extract_value (Scalar CNull) = Inr 0" by code_simp
lemma ex_abc: "extract_value (Scalar (CStr ''abc'')) = Inr 0" by code_simp
lemma ex_2x: "extract_value (Scalar (CStr ''2/x'')) = Inr 0" by code_simp
lemma ex_513: "extract_value (Scalar (CStr ''5/13'')) = Inr 13" by code_simp
lemma ex_7abc: "extract_value (Scalar (CStr ''7abc'')) = Inr 0" by code_simp
lemma ex_1e2: "extract_value (Scalar (CStr ''1e2'')) = Inr 100" by code_simp
lemma ex_7e: "extract_value (Scalar (CStr ''7e'')) = Inr 0" by code_simp
lemma ex_129: "extract_value (Scalar (CStr ''12.9'')) = Inr 12" by code_simp
lemma ex_m37: "extract_value (Scalar (CStr ''-3.7'')) = Inr (- 3)" by code_simp
lemma ex_sp: "extract_value (Scalar (CStr ''5/ 3 /2'')) = Inr 3" by code_simp
lemma ex_535: "extract_value (Scalar (CStr ''5/3.5'')) = Inr 0" by code_simp
lemma ex_us: "extract_value (Scalar (CStr ''a/+1_0'')) = Inr 10" by code_simp
lemma ex_uus: "extract_value (Scalar (CStr ''1__0'')) = Inr 0" by code_simp
lemma ex_hex: "extract_value (Scalar (CStr ''0x1A'')) = Inr 0" by code_simp
lemma ex_nan: "extract_value (Scalar (CStr ''nan'')) = Inr 0" by code_simp
lemma ex_inf: "extract_value (Scalar (CStr ''-Infinity'')) = Inr 0" by code_simp
lemma ex_fs: "extract_value (Scalar (CStr [CHR ''5'', CHR ''/'', CHR 0x1C, CHR ''3''])) = Inr 0"
  by code_simp
lemma ex_n37: "extract_value (Scalar (CNum (Fin (37 / 10)))) = Inr 3" by code_simp
lemma ex_nm37: "extract_value (Scalar (CNum (Fin (- 37 / 10)))) = Inr (- 3)" by code_simp
lemma ex_ninf: "extract_value (Scalar (CNum PInf)) = Inr 0" by code_simp
lemma ex_n253: "extract_value (Scalar (CNum (Fin 9007199254740993))) = Inr 9007199254740992"
  by code_simp
lemma ex_s253: "extract_value (Scalar (CStr ''9007199254740993'')) = Inr 9007199254740992"
  by code_simp
lemma ex_s253s: "extract_value (Scalar (CStr ''x/9007199254740993'')) = Inr 9007199254740993"
  by code_simp

lemma round64_overflow:
  assumes "2 ^ 1024 \<le> n"
  shows "round64 (of_int n) = PInf"
proof -
  have n: "1 \<le> n"
  proof -
    have o: "(1::int) \<le> 2 ^ 1024" by (rule one_le_power) simp
    from o assms show ?thesis by (rule order_trans)
  qed
  let ?e = "floor_log2 n"
  from floor_log2_bounds [OF n] have b: "0 \<le> ?e" "n < 2 * 2 ^ nat ?e" by simp_all
  from assms b(2) have "(2::int) ^ 1024 < 2 ^ Suc (nat ?e)" by simp
  then have "1024 < Suc (nat ?e)"
    by (rule power_less_imp_less_exp [rotated]) simp
  with b(1) have e: "1024 \<le> ?e" by linarith
  have pos: "0 < (of_int n :: rat)" using n by simp
  then have a: "\<bar>of_int n :: rat\<bar> = of_int n" by simp
  have k: "1023 < ilog2 (of_int n)"
    unfolding ilog2_int [OF n] using e by linarith
  from pos have "(of_int n :: rat) \<noteq> 0" "\<not> (of_int n :: rat) < 0" by simp_all
  then show ?thesis
    unfolding round64_def a Let_def using k by simp
qed

lemma int_of_str_to_ascii: "to_ascii s = to_ascii t \<Longrightarrow> int_of_str s = int_of_str t"
  by (simp add: int_of_str_def)

lemma float_of_str_to_ascii: "to_ascii s = to_ascii t \<Longrightarrow> float_of_str s = float_of_str t"
  by (simp add: float_of_str_def)

lemma utf8_fullwidth_three: "to_ascii [CHR 0xEF, CHR 0xBC, CHR 0x93] = to_ascii ''3''"
proof -
  have c: "char_of (51 :: nat) = CHR ''3''" by code_simp
  show ?thesis
    by (simp add: to_ascii_def payload_def continued_def unicode_space_def
        unicode_decimal_def decimal_zeros_def c)
qed

lemma ex_fw2: "extract_value (Scalar (CStr [CHR 0xEF, CHR 0xBC, CHR 0x93])) = Inr 3"
proof -
  have "float_of_str [CHR 0xEF, CHR 0xBC, CHR 0x93] = float_of_str ''3''"
    using utf8_fullwidth_three by (rule float_of_str_to_ascii)
  also have "\<dots> = Some (FVal (Fin 3))" by code_simp
  finally show ?thesis
    by (simp add: extract_value_def extract_composite_count composite_count_def second_part_def
        integer_reading_def integer_part_def)
qed

lemma ex_fw: "extract_value (Scalar (CStr (''5/'' @ [CHR 0xEF, CHR 0xBC, CHR 0x93]))) = Inr 3"
proof -
  have "int_of_str [CHR 0xEF, CHR 0xBC, CHR 0x93] = int_of_str ''3''"
    using utf8_fullwidth_three by (rule int_of_str_to_ascii)
  also have "\<dots> = Some 3" by code_simp
  finally show ?thesis
    by (simp add: extract_value_def extract_composite_count composite_count_def second_part_def)
qed

lemma ex_big: "extract_value (Scalar (CStr ''1e400'')) = Inr 0"
proof -
  have rn: "read_number ''1e400'' = Some (1, 0, ''e400'')" by code_simp
  have re: "read_exponent ''e400'' = Some 400" by code_simp
  have st: "read_sign (strip (to_ascii ''1e400'')) = (False, ''1e400'')" by code_simp
  have w: "map lower_ascii ''1e400'' = ''1e400''" by code_simp
  have "(2::int) ^ 1024 \<le> 10 ^ 400" by simp
  then have "round64 (of_int (10 ^ 400)) = PInf" by (rule round64_overflow)
  then have "float_of_str ''1e400'' = Some (FVal PInf)"
    unfolding float_of_str_def st by (simp add: w rn re pow10_def)
  then show ?thesis
    by (simp add: extract_value_def extract_composite_count composite_count_def second_part_def
        integer_reading_def)
qed

lemma extract_second_part_value:
  assumes "second_part s = Some p" and "extract_half_year_times (CStr s) \<noteq> 0"
  shows "literal_digits p \<noteq> [] \<and> list_all is_digit (literal_digits p)
         \<and> length (literal_digits p) \<le> 4300
         \<and> extract_half_year_times (CStr s)
           = (if literal_negative p then - digits_value (literal_digits p)
              else digits_value (literal_digits p))"
proof -
  from assms obtain v where v: "int_of_str p = Some v" "extract_half_year_times (CStr s) = v"
    by (auto simp: extract_composite_count composite_count_def split: option.splits)
  from int_of_str_value [OF v(1)] v(2) show ?thesis
    by (simp add: literal_digits_def literal_negative_def digits_value_def Let_def
        split: prod.splits)
qed

lemma extract_too_many_digits:
  assumes "CHR ''/'' \<notin> set a" and "list_all is_digit ds" and "4300 < length ds"
  shows "extract_half_year_times (CStr (a @ ''/'' @ ds)) = 0"
proof -
  from assms(3) have ne: "ds \<noteq> []" by auto
  have "CHR ''/'' \<notin> set ds"
  proof
    assume "CHR ''/'' \<in> set ds"
    with assms(2) have "is_digit (CHR ''/'')" by (auto simp: list_all_iff)
    then show False by (simp add: is_digit_def)
  qed
  from second_part_append(1) [OF assms(1) this] assms(3) show ?thesis
    by (simp add: extract_composite_count composite_count_def
        int_of_str_digits [OF assms(2) ne])
qed

lemma extract_value_scalar: "extract_value (Scalar c) = Inr (extract_half_year_times c)"
  by (simp add: extract_value_def)

subsection \<open>The parser on scalar values\<close>

text \<open>
  Claim C2, as amended. On every scalar value (a missing value, a string, a number) the
  composite-count parser returns an integer and does not raise: \<open>"5/3"\<close> gives 3,
  \<open>"7"\<close> gives 7, a missing value 0, \<open>"abc"\<close> 0 and \<open>"2/x"\<close> 0. The integer is
  the one the specification words (\<open>composite_count\<close>): for a string with a slash the
  integer value of its second slash-separated part, for any other value the integer part
  of its numeric value, and 0 for whatever does not parse. The readings themselves are
  pinned apart from their definitions. A second part that is the decimal numeral of
  \<open>n\<close> gives \<open>n\<close>, whatever stands before the first slash and after the second; a
  second part of more than 4300 digits gives 0; a result other than 0 is the value of
  the digits of the second part, which is nothing but white space, a sign, digits and
  underscores. A plain decimal numeral below \<open>2^53\<close> gives its number, and so does an
  integral number of magnitude below \<open>2^53\<close>; a string without slash that holds a
  character that no float literal has gives 0. The further examples cover the digits
  and spaces of Unicode, the ASCII separators that are no white space for \<open>int\<close>,
  exponents, fractions, underscores, infinities, NaN, overflow and the rounding of large
  numbers to binary64.
\<close>

theorem extract_half_year_times_spec:
  "extract_value (Scalar (CStr ''5/3'')) = Inr 3
   \<and> extract_value (Scalar (CStr ''7'')) = Inr 7
   \<and> extract_value (Scalar CNull) = Inr 0
   \<and> extract_value (Scalar (CStr ''abc'')) = Inr 0
   \<and> extract_value (Scalar (CStr ''2/x'')) = Inr 0
   \<and> extract_value (Scalar c) = Inr (composite_count c)
   \<and> (CHR ''/'' \<notin> set a \<and> length (decimal n) \<le> 4300 \<longrightarrow>
        extract_value (Scalar (CStr (a @ ''/'' @ decimal n))) = Inr (int n)
        \<and> extract_value (Scalar (CStr (a @ ''/'' @ decimal n @ ''/'' @ b))) = Inr (int n))
   \<and> (CHR ''/'' \<notin> set a' \<and> list_all is_digit ds \<and> 4300 < length ds \<longrightarrow>
        extract_value (Scalar (CStr (a' @ ''/'' @ ds))) = Inr 0)
   \<and> (second_part s = Some p \<and> extract_value (Scalar (CStr s)) = Inr v \<and> v \<noteq> 0 \<longrightarrow>
        literal_digits p \<noteq> [] \<and> list_all is_digit (literal_digits p)
        \<and> length (literal_digits p) \<le> 4300
        \<and> v = (if literal_negative p then - digits_value (literal_digits p)
               else digits_value (literal_digits p)))
   \<and> (m < 2 ^ 53 \<longrightarrow> extract_value (Scalar (CStr (decimal m))) = Inr (int m))
   \<and> (\<bar>z\<bar> < 2 ^ 53 \<longrightarrow> extract_value (Scalar (CNum (Fin (of_int z)))) = Inr z)
   \<and> (CHR ''/'' \<notin> set t \<and> \<not> list_all float_char (to_ascii t) \<longrightarrow>
        extract_value (Scalar (CStr t)) = Inr 0)
   \<and> extract_value (Scalar (CStr ''5/13'')) = Inr 13
   \<and> extract_value (Scalar (CStr ''5/ 3 /2'')) = Inr 3
   \<and> extract_value (Scalar (CStr ''a/+1_0'')) = Inr 10
   \<and> extract_value (Scalar (CStr ''5/3.5'')) = Inr 0
   \<and> extract_value (Scalar (CStr (''5/'' @ [CHR 0xEF, CHR 0xBC, CHR 0x93]))) = Inr 3
   \<and> extract_value (Scalar (CStr [CHR ''5'', CHR ''/'', CHR 0x1C, CHR ''3''])) = Inr 0
   \<and> extract_value (Scalar (CStr ''7abc'')) = Inr 0
   \<and> extract_value (Scalar (CStr ''7e'')) = Inr 0
   \<and> extract_value (Scalar (CStr ''1e2'')) = Inr 100
   \<and> extract_value (Scalar (CStr ''12.9'')) = Inr 12
   \<and> extract_value (Scalar (CStr ''-3.7'')) = Inr (- 3)
   \<and> extract_value (Scalar (CStr ''1__0'')) = Inr 0
   \<and> extract_value (Scalar (CStr ''0x1A'')) = Inr 0
   \<and> extract_value (Scalar (CStr ''nan'')) = Inr 0
   \<and> extract_value (Scalar (CStr ''-Infinity'')) = Inr 0
   \<and> extract_value (Scalar (CStr ''1e400'')) = Inr 0
   \<and> extract_value (Scalar (CStr [CHR 0xEF, CHR 0xBC, CHR 0x93])) = Inr 3
   \<and> extract_value (Scalar (CStr ''9007199254740993'')) = Inr 9007199254740992
   \<and> extract_value (Scalar (CStr ''x/9007199254740993'')) = Inr 9007199254740993
   \<and> extract_value (Scalar (CNum (Fin (37 / 10)))) = Inr 3
   \<and> extract_value (Scalar (CNum (Fin (- 37 / 10)))) = Inr (- 3)
   \<and> extract_value (Scalar (CNum PInf)) = Inr 0
   \<and> extract_value (Scalar (CNum (Fin 9007199254740993))) = Inr 9007199254740992"
proof -
  have g1: "CHR ''/'' \<notin> set a \<and> length (decimal n) \<le> 4300 \<longrightarrow>
        extract_value (Scalar (CStr (a @ ''/'' @ decimal n))) = Inr (int n)
        \<and> extract_value (Scalar (CStr (a @ ''/'' @ decimal n @ ''/'' @ b))) = Inr (int n)"
    using extract_slash_decimal(1) [of a n] extract_slash_decimal(2) [of a n b] by (simp add: extract_value_scalar)
  have g2: "CHR ''/'' \<notin> set a' \<and> list_all is_digit ds \<and> 4300 < length ds \<longrightarrow>
        extract_value (Scalar (CStr (a' @ ''/'' @ ds))) = Inr 0"
    using extract_too_many_digits [of a' ds] by (simp add: extract_value_scalar)
  have g3: "second_part s = Some p \<and> extract_value (Scalar (CStr s)) = Inr v \<and> v \<noteq> 0 \<longrightarrow>
        literal_digits p \<noteq> [] \<and> list_all is_digit (literal_digits p)
        \<and> length (literal_digits p) \<le> 4300
        \<and> v = (if literal_negative p then - digits_value (literal_digits p)
               else digits_value (literal_digits p))"
    using extract_second_part_value [of s p] by (auto simp: extract_value_scalar)
  have g4: "m < 2 ^ 53 \<longrightarrow> extract_value (Scalar (CStr (decimal m))) = Inr (int m)"
    using extract_decimal [of m] by (simp add: extract_value_scalar)
  have g5: "\<bar>z\<bar> < 2 ^ 53 \<longrightarrow> extract_value (Scalar (CNum (Fin (of_int z)))) = Inr z"
    using extract_int_number [of z] by (simp add: extract_value_scalar)
  have g6: "CHR ''/'' \<notin> set t \<and> \<not> list_all float_char (to_ascii t) \<longrightarrow>
        extract_value (Scalar (CStr t)) = Inr 0"
    using extract_not_a_number [of t] by (simp add: extract_value_scalar)
  have g0: "extract_value (Scalar c) = Inr (composite_count c)"
    by (simp add: extract_value_scalar extract_composite_count)
  show ?thesis
    by (intro conjI)
      (rule ex_53 ex_7 ex_null ex_abc ex_2x g0 g1 g2 g3 g4 g5 g6 ex_513 ex_sp ex_us ex_535
         ex_fw ex_fs ex_7abc ex_7e ex_1e2 ex_129 ex_m37 ex_uus ex_hex ex_nan ex_inf ex_big
         ex_fw2 ex_s253 ex_s253s ex_n37 ex_nm37 ex_ninf ex_n253)+
qed

text \<open>
  A list of two numbers is a value on which the parser raises: the claim as first stated,
  for every input value, fails there.
\<close>

theorem extract_list_counterexample:
  "extract_value (PyList (CNum (Fin 1)) [CNum (Fin 2)]) = Inl ValueError"
  by code_simp

theorem extract_half_year_times_spec_witness:
  "CHR ''/'' \<notin> set ''12'' \<and> length (decimal 13) \<le> 4300
   \<and> extract_value (Scalar (CStr (''12'' @ ''/'' @ decimal 13))) = Inr 13
   \<and> extract_value (Scalar (CStr (''12'' @ ''/'' @ decimal 13 @ ''/'' @ ''x''))) = Inr 13
   \<and> decimal 13 = ''13''
   \<and> list_all is_digit (replicate 4301 (CHR ''1'')) \<and> 4300 < length (replicate 4301 (CHR ''1''))
   \<and> extract_value (Scalar (CStr (''12'' @ ''/'' @ replicate 4301 (CHR ''1'')))) = Inr 0
   \<and> second_part ''5/-1_3/2'' = Some ''-1_3''
   \<and> extract_value (Scalar (CStr ''5/-1_3/2'')) = Inr (- 13)
   \<and> literal_digits ''-1_3'' = ''13'' \<and> literal_negative ''-1_3''
   \<and> digits_value ''13'' = 13
   \<and> extract_value (Scalar (CStr (decimal 2024))) = Inr 2024
   \<and> decimal 2024 = ''2024''
   \<and> extract_value (Scalar (CNum (Fin (of_int (- 42))))) = Inr (- 42)
   \<and> \<not> list_all float_char (to_ascii ''3 boards'')
   \<and> extract_value (Scalar (CStr ''3 boards'')) = Inr 0"
proof -
  have h1: "CHR ''/'' \<notin> set ''12''" by simp
  have d13: "decimal 13 = ''13''" by code_simp
  have h2: "length (decimal 13) \<le> 4300" by (simp add: d13)
  have h3: "list_all is_digit (replicate 4301 (CHR ''1''))"
    by (simp add: list_all_iff is_digit_def)
  have h4: "4300 < length (replicate 4301 (CHR ''1''))" by simp
  have h5: "second_part ''5/-1_3/2'' = Some ''-1_3''" by code_simp
  have h6: "extract_value (Scalar (CStr ''5/-1_3/2'')) = Inr (- 13)" by code_simp
  have h7: "literal_digits ''-1_3'' = ''13''" by code_simp
  have h8: "literal_negative ''-1_3''" by code_simp
  have h9: "digits_value ''13'' = 13" by code_simp
  have d2024: "decimal 2024 = ''2024''" by code_simp
  have h10: "\<not> list_all float_char (to_ascii ''3 boards'')" by code_simp
  have h11: "CHR ''/'' \<notin> set ''3 boards''" by simp
  show ?thesis
    using h1 h2 h3 h4 h5 h6 h7 h8 h9 h10 h11 d13 d2024
      extract_half_year_times_spec [where c = CNull and a = "''12''" and n = 13 and b = "''x''"
        and a' = "''12''" and ds = "replicate 4301 (CHR ''1'')" and s = "''5/-1_3/2''"
        and p = "''-1_3''" and v = "- 13" and m = 2024 and z = "- 42"
        and t = "''3 boards''"]
    by simp
qed

end
